theory Spec2Isabelle
  imports Complex_Main "HOL-Library.AList"
begin

section \<open>Python values and built-ins\<close>

text \<open>
  The pipeline reads loosely structured documents. A value the code takes from such a
  document and inspects, coerces or tokenises (numbers, priorities, structure labels,
  metric names) is a \<open>pyval\<close>, \<open>PNone\<close> being Python's \<^verbatim>\<open>None\<close>. An operator,
  which the code passes to a function annotated \<^verbatim>\<open>Optional[str]\<close>, and the result
  of a normaliser are a \<open>string option\<close>. Strings are ASCII text, one \<open>char\<close> per
  character.
  Python floats are modelled as real numbers: rounding, infinities and not-a-number
  inputs are outside the model. The single not-a-number the code itself creates,
  \<^verbatim>\<open>float("nan")\<close>, is the constructor \<open>NaN\<close> of \<open>pyfloat\<close>.
\<close>

datatype pyval =
    PNone
  | PBool bool
  | PInt int
  | PFloat real
  | PStr string
  | PList "pyval list"
  | PDict "(string \<times> pyval) list"

datatype pyerr = OverflowError | ZeroDivisionError | ValueError | IndexError | AttributeError

datatype pyfloat = NaN | Fl real

text \<open>
  Built-ins whose result depends on the text form of values are parameters:
  \<^verbatim>\<open>float(s)\<close> and \<^verbatim>\<open>int(s)\<close> on a string (\<open>None\<close> when Python raises
  \<^verbatim>\<open>ValueError\<close>), \<^verbatim>\<open>str(x)\<close> on a float and on an int, and
  \<^verbatim>\<open>str(value)\<close> on a value that is not a string.
\<close>

record builtins =
  float_of_str :: "string \<Rightarrow> real option"
  int_of_str :: "string \<Rightarrow> int option"
  str_of_float :: "real \<Rightarrow> string"
  str_of_int :: "int \<Rightarrow> string"
  str_of_obj :: "pyval \<Rightarrow> string"

text \<open>
  \<^verbatim>\<open>float(i)\<close> on an int raises \<^verbatim>\<open>OverflowError\<close> when \<open>i\<close> rounds to a
  magnitude beyond the largest double, \<open>2^1024 - 2^971\<close>: from the midpoint
  \<open>2^1024 - 2^970\<close> on.
\<close>

definition float_of_int :: "int \<Rightarrow> pyerr + real" where
  "float_of_int i =
     (if \<bar>i\<bar> \<ge> 2 ^ 1024 - 2 ^ 970 then Inl OverflowError else Inr (real_of_int i))"

definition py_div :: "real \<Rightarrow> real \<Rightarrow> pyerr + real" where
  "py_div a b = (if b = 0 then Inl ZeroDivisionError else Inr (a / b))"

text \<open>\<^verbatim>\<open>int(x)\<close> on a float truncates towards zero.\<close>

definition py_trunc :: "real \<Rightarrow> int" where
  "py_trunc r = (if r \<ge> 0 then \<lfloor>r\<rfloor> else \<lceil>r\<rceil>)"

text \<open>
  \<^verbatim>\<open>int(priority) if priority is not None else None\<close> inside
  \<^verbatim>\<open>try ... except (TypeError, ValueError)\<close>, as both dictionary builders and the
  extractor write it: a list or dict raises \<^verbatim>\<open>TypeError\<close>, an unparseable string
  \<^verbatim>\<open>ValueError\<close>, and both become \<open>None\<close>.
\<close>

fun priority_int :: "builtins \<Rightarrow> pyval \<Rightarrow> int option" where
  "priority_int B PNone = None"
| "priority_int B (PBool b) = Some (if b then 1 else 0)"
| "priority_int B (PInt i) = Some i"
| "priority_int B (PFloat r) = Some (py_trunc r)"
| "priority_int B (PStr s) = int_of_str B s"
| "priority_int B (PList xs) = None"
| "priority_int B (PDict kvs) = None"

subsection \<open>String methods\<close>

text \<open>
  \<^verbatim>\<open>str.isspace\<close> on ASCII: tab, line feed, vertical tab, form feed, carriage
  return, the four separators \<open>0x1c\<close> to \<open>0x1f\<close>, and the space.
\<close>

definition is_space :: "char \<Rightarrow> bool" where
  "is_space c = ((of_char c :: nat) \<in> {9, 10, 11, 12, 13, 28, 29, 30, 31, 32})"

definition is_alnum :: "char \<Rightarrow> bool" where
  "is_alnum c =
     (let n = (of_char c :: nat)
      in (48 \<le> n \<and> n \<le> 57) \<or> (65 \<le> n \<and> n \<le> 90) \<or> (97 \<le> n \<and> n \<le> 122))"

definition lower_char :: "char \<Rightarrow> char" where
  "lower_char c =
     (let n = (of_char c :: nat) in if 65 \<le> n \<and> n \<le> 90 then char_of (n + 32) else c)"

definition py_lower :: "string \<Rightarrow> string" where
  "py_lower s = map lower_char s"

definition py_strip :: "string \<Rightarrow> string" where
  "py_strip s = rev (dropWhile is_space (rev (dropWhile is_space s)))"

text \<open>
  Splitting at every maximal run of separator characters, keeping the possibly empty
  first and last field: \<^verbatim>\<open>re.split(r"[sep]+", s)\<close>. The field being read is
  accumulated in reverse.
\<close>

function split_runs :: "(char \<Rightarrow> bool) \<Rightarrow> string \<Rightarrow> string \<Rightarrow> string list" where
  "split_runs sep cur [] = [rev cur]"
| "split_runs sep cur (c # cs) =
     (if sep c then rev cur # split_runs sep [] (dropWhile sep cs)
      else split_runs sep (c # cur) cs)"
  by pat_completeness auto
termination
  by (relation "measure (\<lambda>(sep, cur, s). length s)")
     (auto simp: le_imp_less_Suc length_dropWhile_le)

text \<open>\<^verbatim>\<open>s.split()\<close>: the fields between runs of whitespace, none of them empty.\<close>

definition py_split :: "string \<Rightarrow> string list" where
  "py_split s = filter (\<lambda>w. w \<noteq> []) (split_runs is_space [] s)"

fun py_join :: "string \<Rightarrow> string list \<Rightarrow> string" where
  "py_join sep [] = []"
| "py_join sep [x] = x"
| "py_join sep (x # y # ys) = x @ sep @ py_join sep (y # ys)"

text \<open>Truth value of an \<^verbatim>\<open>Optional[str]\<close>: \<^verbatim>\<open>None\<close> and \<^verbatim>\<open>""\<close> are false.\<close>

fun truthy :: "string option \<Rightarrow> bool" where
  "truthy None = False"
| "truthy (Some s) = (s \<noteq> [])"

text \<open>
  Truth value of any value: \<^verbatim>\<open>None\<close>, \<^verbatim>\<open>False\<close>, zero and the empty string,
  list and dictionary are false. \<^verbatim>\<open>a or b\<close> is \<open>a\<close> when \<open>a\<close> is true and
  \<open>b\<close> otherwise.
\<close>

fun py_truthy :: "pyval \<Rightarrow> bool" where
  "py_truthy PNone = False"
| "py_truthy (PBool b) = b"
| "py_truthy (PInt i) = (i \<noteq> 0)"
| "py_truthy (PFloat x) = (x \<noteq> 0)"
| "py_truthy (PStr s) = (s \<noteq> [])"
| "py_truthy (PList xs) = (xs \<noteq> [])"
| "py_truthy (PDict kvs) = (kvs \<noteq> [])"

definition py_or :: "pyval \<Rightarrow> pyval \<Rightarrow> pyval" where
  "py_or a b = (if py_truthy a then a else b)"

text \<open>\<^verbatim>\<open>d.get(k)\<close> is \<^verbatim>\<open>None\<close> on a missing key.\<close>

definition map_get :: "(string \<rightharpoonup> pyval) \<Rightarrow> string \<Rightarrow> pyval" where
  "map_get d k = (case d k of None \<Rightarrow> PNone | Some v \<Rightarrow> v)"

definition is_str :: "pyval \<Rightarrow> bool" where
  "is_str v = (case v of PStr s \<Rightarrow> True | _ \<Rightarrow> False)"

definition the_str :: "pyval \<Rightarrow> string" where
  "the_str v = (case v of PStr s \<Rightarrow> s | _ \<Rightarrow> [])"

section \<open>Text and key normaliser (src/plan_score_pipeline.py)\<close>

text \<open>
  \<open>normalize_text\<close>: \<^verbatim>\<open>None\<close> stays \<^verbatim>\<open>None\<close>, a value that is not a string
  is first turned into one with \<^verbatim>\<open>str(value)\<close>.
\<close>

definition normalize_text :: "builtins \<Rightarrow> pyval \<Rightarrow> string option" where
  "normalize_text B v =
     (if v = PNone then None
      else
        let v = (if \<not> is_str v then PStr (str_of_obj B v) else v)
        in Some (py_join '' '' (py_split (py_lower (py_strip (the_str v))))))"

text \<open>
  The canonical form in the specification's words: the trimmed, lower-cased text with
  every run of whitespace replaced by one space.
\<close>

function collapse_ws :: "string \<Rightarrow> string" where
  "collapse_ws [] = []"
| "collapse_ws (c # cs) =
     (if is_space c then CHR '' '' # collapse_ws (dropWhile is_space cs)
      else c # collapse_ws cs)"
  by pat_completeness auto
termination
  by (relation "measure length") (auto simp: le_imp_less_Suc length_dropWhile_le)

definition canonical_text :: "string \<Rightarrow> string" where
  "canonical_text s = collapse_ws (py_lower (py_strip s))"

text \<open>The text of a value: the value itself when it is a string, its \<^verbatim>\<open>str\<close> form
  otherwise.\<close>

definition text_of :: "builtins \<Rightarrow> pyval \<Rightarrow> string" where
  "text_of B v = (case v of PStr s \<Rightarrow> s | _ \<Rightarrow> str_of_obj B v)"

fun parse_numeric :: "builtins \<Rightarrow> pyval \<Rightarrow> pyerr + real option" where
  "parse_numeric B PNone = Inr None"
| "parse_numeric B (PBool b) = Inr None"
| "parse_numeric B (PInt i) =
     (case float_of_int i of Inl e \<Rightarrow> Inl e | Inr x \<Rightarrow> Inr (Some x))"
| "parse_numeric B (PFloat x) = Inr (Some x)"
| "parse_numeric B (PStr s) =
     (let cleaned = py_strip s
      in if cleaned = [] then Inr None else Inr (float_of_str B cleaned))"
| "parse_numeric B (PList xs) = Inr None"
| "parse_numeric B (PDict kvs) = Inr None"

fun normalize_operator :: "string option \<Rightarrow> string option" where
  "normalize_operator None = None"
| "normalize_operator (Some v) =
     (let v = py_strip v
      in if v \<in> {''<='', ''<'', ''>='', ''>''} then Some v else Some (py_lower v))"

definition LOWER_BETTER_OPS :: "string set" where
  "LOWER_BETTER_OPS = {''<='', ''<''}"

definition HIGHER_BETTER_OPS :: "string set" where
  "HIGHER_BETTER_OPS = {''>='', ''>''}"

definition direction_from_operator :: "string option \<Rightarrow> string option" where
  "direction_from_operator operator =
     (if \<not> truthy operator then None
      else if the operator \<in> LOWER_BETTER_OPS then Some ''lower''
      else if the operator \<in> HIGHER_BETTER_OPS then Some ''higher''
      else None)"

type_synonym ckey =
  "string option \<times> string option \<times> string option \<times> real option \<times>
   string option \<times> real option \<times> int option"

definition constraint_key ::
  "builtins \<Rightarrow> pyval \<Rightarrow> pyval \<Rightarrow> string option \<Rightarrow> real option \<Rightarrow>
   string option \<Rightarrow> real option \<Rightarrow> int option \<Rightarrow> ckey" where
  "constraint_key B structure metric_display goal_operator goal_value
       variation_operator variation_value priority =
     (normalize_text B structure, normalize_text B metric_display,
      normalize_operator goal_operator, goal_value,
      normalize_operator variation_operator, variation_value, priority)"

definition constraint_key_to_str :: "builtins \<Rightarrow> ckey \<Rightarrow> string" where
  "constraint_key_to_str B key =
     (case key of (s, m, gop, gv, vop, vv, p) \<Rightarrow>
        py_join ''||''
          [case s of None \<Rightarrow> [] | Some x \<Rightarrow> x,
           case m of None \<Rightarrow> [] | Some x \<Rightarrow> x,
           case gop of None \<Rightarrow> [] | Some x \<Rightarrow> x,
           case gv of None \<Rightarrow> [] | Some x \<Rightarrow> str_of_float B x,
           case vop of None \<Rightarrow> [] | Some x \<Rightarrow> x,
           case vv of None \<Rightarrow> [] | Some x \<Rightarrow> str_of_float B x,
           case p of None \<Rightarrow> [] | Some x \<Rightarrow> str_of_int B x])"

section \<open>Structure resolver\<close>

text \<open>
  A dictionary that is only read with \<^verbatim>\<open>.get\<close> is a map; one that is iterated
  with \<^verbatim>\<open>.items()\<close> is an association list in insertion order. The canonical
  names in the alias table and in the protocol vocabulary are the values the catalogue
  holds, whatever their type.

  \<open>tokenize\<close> calls \<^verbatim>\<open>value.lower()\<close>: on a value that is not a string Python
  raises \<^verbatim>\<open>AttributeError\<close>. \<open>str_tokens\<close> is its result on a string.
\<close>

definition str_tokens :: "string \<Rightarrow> string list" where
  "str_tokens v = filter (\<lambda>token. token \<noteq> []) (split_runs (\<lambda>c. \<not> is_alnum c) [] (py_lower v))"

definition tokenize :: "pyval \<Rightarrow> pyerr + string list" where
  "tokenize v = (if is_str v then Inr (str_tokens (the_str v)) else Inl AttributeError)"

definition dict_get :: "(string \<times> pyval) list \<Rightarrow> string \<Rightarrow> pyval" where
  "dict_get d k = map_get (map_of d) k"

fun fuzzy_loop ::
  "string set \<Rightarrow> (string \<times> pyval) list \<Rightarrow> pyval \<Rightarrow> real \<Rightarrow> pyerr + (pyval \<times> real)" where
  "fuzzy_loop raw_tokens [] best_match best_score = Inr (best_match, best_score)"
| "fuzzy_loop raw_tokens ((norm_name, canonical) # rest) best_match best_score =
     (case tokenize canonical of
        Inl e \<Rightarrow> Inl e
      | Inr tokens \<Rightarrow>
          let target_tokens = set tokens
          in if target_tokens = {} then fuzzy_loop raw_tokens rest best_match best_score
             else
               let overlap = raw_tokens \<inter> target_tokens
               in (case py_div (real (card overlap))
                          (real (max (card raw_tokens) (card target_tokens))) of
                     Inl e \<Rightarrow> Inl e
                   | Inr score \<Rightarrow>
                       if score > best_score
                       then fuzzy_loop raw_tokens rest canonical score
                       else fuzzy_loop raw_tokens rest best_match best_score))"

definition resolve_structure ::
  "builtins \<Rightarrow> pyval \<Rightarrow> (string \<rightharpoonup> pyval) \<Rightarrow> (string \<times> pyval) list \<Rightarrow> pyerr + pyval" where
  "resolve_structure B raw_name alias_map protocol_structure_map =
     (if \<not> py_truthy raw_name then Inr PNone
      else
        let normalized = normalize_text B raw_name
        in if \<not> truthy normalized then Inr PNone
           else
             let alias = map_get alias_map (the normalized)
             in if py_truthy alias then Inr alias
                else
                  let direct = dict_get protocol_structure_map (the normalized)
                  in if py_truthy direct then Inr direct
                     else
                       (case tokenize raw_name of
                          Inl e \<Rightarrow> Inl e
                        | Inr tokens \<Rightarrow>
                            let raw_tokens = set tokens
                            in if raw_tokens = {} then Inr PNone
                               else
                                 (case fuzzy_loop raw_tokens protocol_structure_map PNone 0 of
                                    Inl e \<Rightarrow> Inl e
                                  | Inr (best_match, best_score) \<Rightarrow>
                                      if py_truthy best_match \<and> best_score > 0
                                      then Inr best_match
                                      else Inr PNone)))"

text \<open>
  The fuzzy fallback in the specification's words: the overlap ratio of a candidate, and
  the first candidate in iteration order among those whose ratio is the highest, provided
  that ratio is positive.
\<close>

definition overlap_ratio :: "string \<Rightarrow> string \<Rightarrow> real" where
  "overlap_ratio raw canonical =
     real (card (set (str_tokens raw) \<inter> set (str_tokens canonical))) /
     real (max (card (set (str_tokens raw))) (card (set (str_tokens canonical))))"

definition best_ratio :: "string \<Rightarrow> string list \<Rightarrow> real" where
  "best_ratio raw candidates = Max (set (map (overlap_ratio raw) candidates))"

definition fuzzy_choice :: "string \<Rightarrow> string list \<Rightarrow> string option" where
  "fuzzy_choice raw candidates =
     (if candidates = [] then None
      else if best_ratio raw candidates > 0
      then find (\<lambda>c. overlap_ratio raw c = best_ratio raw candidates) candidates
      else None)"

text \<open>The candidates of the fuzzy fallback: the canonical names of the vocabulary, in
  its iteration order.\<close>

definition candidate_names :: "(string \<times> pyval) list \<Rightarrow> string list" where
  "candidate_names vocabulary = map (\<lambda>(norm_name, canonical). the_str canonical) vocabulary"

text \<open>
  The resolution in the specification's words, with the cases in which the code raises
  written out. A missing or blank label resolves to nothing. Otherwise the steps are, in
  order: (1) the alias table's entry for the canonical text of the label, (2) the
  vocabulary's entry for it, (3) the fuzzy fallback over the canonical names of the
  vocabulary. An entry counts in steps (1) and (2) when it is a true value. Step (3)
  needs a label that is a string, and, when the label has a token, canonical names that
  are all strings.
\<close>

definition resolution ::
  "builtins \<Rightarrow> pyval \<Rightarrow> (string \<rightharpoonup> pyval) \<Rightarrow> (string \<times> pyval) list \<Rightarrow> pyerr + pyval" where
  "resolution B label alias_table vocabulary =
     (if \<not> py_truthy label then Inr PNone
      else
        let text = canonical_text (text_of B label)
        in if text = [] then Inr PNone
           else if py_truthy (map_get alias_table text) then Inr (map_get alias_table text)
           else if py_truthy (map_get (map_of vocabulary) text)
           then Inr (map_get (map_of vocabulary) text)
           else if \<not> is_str label then Inl AttributeError
           else if str_tokens (the_str label) = [] then Inr PNone
           else if \<not> list_all is_str (map snd vocabulary) then Inl AttributeError
           else
             (case fuzzy_choice (the_str label) (candidate_names vocabulary) of
                None \<Rightarrow> Inr PNone
              | Some c \<Rightarrow> Inr (PStr c)))"

section \<open>Constraint dictionary builder\<close>

text \<open>A constraint definition as \<open>build_standard_constraints\<close> and
  \<open>build_protocol_constraints\<close> emit it; the structure, the metric name and the
  priority are whatever the catalogue holds.\<close>

record constraint_def =
  c_structure :: pyval
  c_metric_display :: pyval
  c_priority :: pyval
  c_goal_operator :: "string option"
  c_goal_value :: "real option"
  c_variation_operator :: "string option"
  c_variation_value :: "real option"

record constraint_meta =
  m_structure :: pyval
  m_metric_display :: pyval
  m_goal_operator :: "string option"
  m_goal_value :: "real option"
  m_variation_operator :: "string option"
  m_variation_value :: "real option"
  m_priority :: "int option"

fun structure_map_loop ::
  "builtins \<Rightarrow> constraint_def list \<Rightarrow> (string \<times> pyval) list \<Rightarrow> (string \<times> pyval) list" where
  "structure_map_loop B [] structure_map = structure_map"
| "structure_map_loop B (c # cs) structure_map =
     (let structure = c_structure c;
          norm = normalize_text B structure
      in if truthy norm
         then structure_map_loop B cs (AList.update (the norm) structure structure_map)
         else structure_map_loop B cs structure_map)"

definition build_protocol_structure_map ::
  "builtins \<Rightarrow> constraint_def list \<Rightarrow> (string \<times> pyval) list" where
  "build_protocol_structure_map B constraints = structure_map_loop B constraints []"

fun lookup_loop ::
  "builtins \<Rightarrow> constraint_def list \<Rightarrow> (string \<times> constraint_meta) list \<Rightarrow>
   (string \<times> constraint_meta) list" where
  "lookup_loop B [] lookup = lookup"
| "lookup_loop B (c # cs) lookup =
     (let priority_value = priority_int B (c_priority c);
          key = constraint_key B (c_structure c) (c_metric_display c) (c_goal_operator c)
                  (c_goal_value c) (c_variation_operator c) (c_variation_value c)
                  priority_value;
          key_str = constraint_key_to_str B key
      in if key_str \<in> fst ` set lookup then lookup_loop B cs lookup
         else lookup_loop B cs
                (lookup @
                 [(key_str,
                   \<lparr>m_structure = c_structure c,
                    m_metric_display = c_metric_display c,
                    m_goal_operator = normalize_operator (c_goal_operator c),
                    m_goal_value = c_goal_value c,
                    m_variation_operator = normalize_operator (c_variation_operator c),
                    m_variation_value = c_variation_value c,
                    m_priority = priority_value\<rparr>)]))"

definition build_constraint_lookup ::
  "builtins \<Rightarrow> constraint_def list \<Rightarrow> (string \<times> constraint_meta) list" where
  "build_constraint_lookup B constraints = lookup_loop B constraints []"

fun context_loop ::
  "(string \<times> constraint_meta) list \<Rightarrow> (string \<rightharpoonup> string) \<Rightarrow> (string \<rightharpoonup> real) \<Rightarrow>
   pyerr + ((string \<rightharpoonup> string) \<times> (string \<rightharpoonup> real))" where
  "context_loop [] directions weights = Inr (directions, weights)"
| "context_loop ((key_str, meta) # rest) directions weights =
     (let direction = direction_from_operator (m_goal_operator meta)
      in if \<not> truthy direction then context_loop rest directions weights
         else
           let directions = directions(key_str \<mapsto> the direction)
           in case m_priority meta of
                None \<Rightarrow> context_loop rest directions weights
              | Some priority \<Rightarrow>
                  if priority > 0
                  then case float_of_int priority of
                         Inl e \<Rightarrow> Inl e
                       | Inr p \<Rightarrow>
                           (case py_div 1 p of
                              Inl e \<Rightarrow> Inl e
                            | Inr w \<Rightarrow> context_loop rest directions (weights(key_str \<mapsto> w)))
                  else context_loop rest directions weights)"

definition build_constraint_context ::
  "builtins \<Rightarrow> constraint_def list \<Rightarrow>
   pyerr + ((string \<times> constraint_meta) list \<times> (string \<times> pyval) list \<times>
            (string \<rightharpoonup> string) \<times> (string \<rightharpoonup> real))" where
  "build_constraint_context B constraints =
     (let constraint_lookup = build_constraint_lookup B constraints;
          protocol_structure_map = build_protocol_structure_map B constraints
      in case context_loop constraint_lookup Map.empty Map.empty of
           Inl e \<Rightarrow> Inl e
         | Inr (directions, weights) \<Rightarrow>
             Inr (constraint_lookup, protocol_structure_map, directions, weights))"

section \<open>Percentile scorer\<close>

text \<open>
  A numpy array is a list. \<^verbatim>\<open>np.searchsorted(a, v, side="right")\<close> is the
  library's binary search: it halves the interval \<open>[lo, hi)\<close> and moves right
  whenever the middle element is at most \<open>v\<close>.
\<close>

function searchsorted_loop :: "real list \<Rightarrow> real \<Rightarrow> nat \<Rightarrow> nat \<Rightarrow> nat" where
  "searchsorted_loop a v lo hi =
     (if lo < hi
      then (let mid = lo + (hi - lo) div 2
            in if a ! mid \<le> v then searchsorted_loop a v (mid + 1) hi
               else searchsorted_loop a v lo mid)
      else lo)"
  by pat_completeness auto
termination
  by (relation "measure (\<lambda>(a, v, lo, hi). hi - lo)") auto

declare searchsorted_loop.simps [simp del]

definition searchsorted_right :: "real list \<Rightarrow> real \<Rightarrow> nat" where
  "searchsorted_right a v = searchsorted_loop a v 0 (length a)"

definition compute_percentile :: "real \<Rightarrow> real list \<Rightarrow> string \<Rightarrow> pyfloat" where
  "compute_percentile v sorted_values direction =
     (let n = length sorted_values in
      if n = 0 then NaN
      else
        let base =
          (if n = 1 then 1
           else
             let rank = int (searchsorted_right sorted_values v);
                 rank = (if rank < 1 then 1 else rank);
                 rank = (if rank > int n then int n else rank)
             in (real_of_int rank - 1) / (real n - 1))
        in if direction = ''lower'' then Fl (1 - base) else Fl base)"

text \<open>
  The right-insertion index of the specification: the position after every entry
  that is at most \<open>v\<close>, that is, the number of such entries in a sorted array.
\<close>

definition right_insertion_index :: "real list \<Rightarrow> real \<Rightarrow> nat" where
  "right_insertion_index xs v = length (filter (\<lambda>x. x \<le> v) xs)"

text \<open>The base of the specification: \<open>1\<close> on a single entry, otherwise
  \<open>(rank - 1) / (n - 1)\<close> with the rank clamped to \<open>[1, n]\<close>.\<close>

definition percentile_base :: "real list \<Rightarrow> real \<Rightarrow> real" where
  "percentile_base xs v =
     (let n = length xs;
          rank = max 1 (min n (right_insertion_index xs v))
      in if n = 1 then 1 else (real rank - 1) / (real n - 1))"

text \<open>Float arithmetic with not-a-number: any operation on \<open>NaN\<close> is \<open>NaN\<close>.\<close>

fun fl_add :: "pyfloat \<Rightarrow> pyfloat \<Rightarrow> pyfloat" where
  "fl_add (Fl a) (Fl b) = Fl (a + b)"
| "fl_add _ _ = NaN"

fun fl_mul :: "pyfloat \<Rightarrow> pyfloat \<Rightarrow> pyfloat" where
  "fl_mul (Fl a) (Fl b) = Fl (a * b)"
| "fl_mul _ _ = NaN"

fun fl_div :: "pyfloat \<Rightarrow> real \<Rightarrow> pyfloat" where
  "fl_div (Fl a) b = Fl (a / b)"
| "fl_div NaN b = NaN"

fun score_loop ::
  "(string \<times> real) list \<Rightarrow> (string \<rightharpoonup> real list) \<Rightarrow> (string \<rightharpoonup> string) \<Rightarrow>
   (string \<rightharpoonup> real) \<Rightarrow> real \<Rightarrow> pyfloat \<Rightarrow> real \<times> pyfloat" where
  "score_loop [] distributions directions weights total_weight total_score =
     (total_weight, total_score)"
| "score_loop ((key_str, v) # rest) distributions directions weights total_weight total_score =
     (case (distributions key_str, directions key_str, weights key_str) of
        (Some dist_values, Some direction, Some weight) \<Rightarrow>
          (let percentile = compute_percentile v dist_values direction;
               total_score = fl_add total_score (fl_mul (Fl weight) percentile);
               total_weight = total_weight + weight
           in score_loop rest distributions directions weights total_weight total_score)
      | _ \<Rightarrow> score_loop rest distributions directions weights total_weight total_score)"

text \<open>The result is \<open>None\<close> for Python's \<^verbatim>\<open>None\<close>.\<close>

definition compute_plan_score ::
  "(string \<times> real) list \<Rightarrow> (string \<rightharpoonup> real list) \<Rightarrow> (string \<rightharpoonup> string) \<Rightarrow>
   (string \<rightharpoonup> real) \<Rightarrow> pyfloat option" where
  "compute_plan_score plan_constraints distributions directions weights =
     (case score_loop plan_constraints distributions directions weights 0 (Fl 0) of
        (total_weight, total_score) \<Rightarrow>
          if total_weight = 0 then None else Some (fl_div total_score total_weight))"

text \<open>
  The total weight of the specification: the weights of the plan's keys that the
  reference has a distribution, a direction and a weight for.
\<close>

definition usable_weight ::
  "(string \<times> real) list \<Rightarrow> (string \<rightharpoonup> real list) \<Rightarrow> (string \<rightharpoonup> string) \<Rightarrow>
   (string \<rightharpoonup> real) \<Rightarrow> real" where
  "usable_weight plan_constraints distributions directions weights =
     sum_list (map (\<lambda>(k, v). the (weights k))
       (filter (\<lambda>(k, v). distributions k \<noteq> None \<and> directions k \<noteq> None \<and> weights k \<noteq> None)
          plan_constraints))"

section \<open>Population reference builder\<close>

text \<open>
  A row of the plan-constraints frame, with the columns the scoring functions read.
  The constraint vector is \<open>None\<close> when the cell is not a dictionary; the
  full-population score is \<open>None\<close> when it is absent.
\<close>

record plan_row =
  patient_id :: pyval
  plan_id :: pyval
  plan_constraints :: "(string \<times> real) list option"
  plan_score_full :: "pyfloat option"

record reference =
  constraint_meta :: "(string \<times> constraint_meta) list"
  distributions :: "string \<rightharpoonup> real list"
  directions :: "string \<rightharpoonup> string"
  weights :: "string \<rightharpoonup> real"

fun collect_items ::
  "(string \<times> real) list \<Rightarrow> (string \<rightharpoonup> real list) \<Rightarrow> (string \<rightharpoonup> real list)" where
  "collect_items [] dists = dists"
| "collect_items ((key_str, v) # rest) dists =
     (case dists key_str of
        Some vs \<Rightarrow> collect_items rest (dists(key_str \<mapsto> vs @ [v]))
      | None \<Rightarrow> collect_items rest dists)"

fun collect_plans ::
  "(string \<times> real) list option list \<Rightarrow> (string \<rightharpoonup> real list) \<Rightarrow> (string \<rightharpoonup> real list)" where
  "collect_plans [] dists = dists"
| "collect_plans (None # rest) dists = collect_plans rest dists"
| "collect_plans (Some pc # rest) dists = collect_plans rest (collect_items pc dists)"

definition build_reference_from_plan_constraints ::
  "plan_row list \<Rightarrow> (string \<times> constraint_meta) list \<Rightarrow> (string \<rightharpoonup> string) \<Rightarrow>
   (string \<rightharpoonup> real) \<Rightarrow> reference" where
  "build_reference_from_plan_constraints plan_constraints_df constraint_lookup dirs ws =
     (let dists = collect_plans (map plan_constraints plan_constraints_df)
                    (map_of (map (\<lambda>(key, meta). (key, [])) constraint_lookup));
          sorted_distributions =
            (\<lambda>key_str. case dists key_str of
                          None \<Rightarrow> None
                        | Some vs \<Rightarrow> if vs = [] then None else Some (sort vs))
      in \<lparr>constraint_meta = constraint_lookup,
          distributions = sorted_distributions,
          directions = dirs,
          weights = ws\<rparr>)"

definition score_plan_constraints_df :: "plan_row list \<Rightarrow> reference \<Rightarrow> pyfloat option list" where
  "score_plan_constraints_df plan_constraints_df ref =
     map (\<lambda>row. case plan_constraints row of
                   None \<Rightarrow> None
                 | Some pc \<Rightarrow>
                     compute_plan_score pc (distributions ref) (directions ref) (weights ref))
       plan_constraints_df"

section \<open>Plan constraint extractor\<close>

text \<open>
  A result record of a plan. A sub-document that is missing or empty is \<open>None\<close>, so
  that \<^verbatim>\<open>result.get("goal") or {}\<close> followed by \<^verbatim>\<open>.get("value")\<close> reads
  \<open>PNone\<close> there.
\<close>

record metric_doc =
  display :: pyval

record bound_doc =
  b_operator :: "string option"
  b_value :: pyval

record achieved_doc =
  a_value :: pyval

record result_doc =
  r_metric :: "metric_doc option"
  r_objective :: pyval
  r_structure_tg263 :: pyval
  r_structure :: pyval
  r_priority :: pyval
  r_goal :: "bound_doc option"
  r_variation :: "bound_doc option"
  r_achieved :: "achieved_doc option"

definition get_display :: "metric_doc option \<Rightarrow> pyval" where
  "get_display metric = (case metric of None \<Rightarrow> PNone | Some m \<Rightarrow> display m)"

definition get_operator :: "bound_doc option \<Rightarrow> string option" where
  "get_operator bound = (case bound of None \<Rightarrow> None | Some b \<Rightarrow> b_operator b)"

definition get_value :: "bound_doc option \<Rightarrow> pyval" where
  "get_value bound = (case bound of None \<Rightarrow> PNone | Some b \<Rightarrow> b_value b)"

definition get_achieved_value :: "achieved_doc option \<Rightarrow> pyval" where
  "get_achieved_value achieved = (case achieved of None \<Rightarrow> PNone | Some a \<Rightarrow> a_value a)"

text \<open>The body of the extraction loop up to \<^verbatim>\<open>key_str\<close>.\<close>

definition result_key_str ::
  "builtins \<Rightarrow> (string \<rightharpoonup> pyval) \<Rightarrow> (string \<times> pyval) list \<Rightarrow> result_doc \<Rightarrow> pyerr + string" where
  "result_key_str B alias_map protocol_structure_map result =
     (let metric = r_metric result;
          metric_display = py_or (get_display metric) (r_objective result);
          raw_structure = py_or (r_structure_tg263 result) (r_structure result)
      in case resolve_structure B raw_structure alias_map protocol_structure_map of
           Inl e \<Rightarrow> Inl e
         | Inr structure \<Rightarrow>
             let priority_value = priority_int B (r_priority result);
                 goal = r_goal result;
                 variation = r_variation result
             in (case parse_numeric B (get_value goal) of
                   Inl e \<Rightarrow> Inl e
                 | Inr goal_value \<Rightarrow>
                     (case parse_numeric B (get_value variation) of
                        Inl e \<Rightarrow> Inl e
                      | Inr variation_value \<Rightarrow>
                          Inr (constraint_key_to_str B
                                 (constraint_key B structure metric_display (get_operator goal)
                                    goal_value (get_operator variation) variation_value
                                    priority_value)))))"

definition result_achieved :: "builtins \<Rightarrow> result_doc \<Rightarrow> pyerr + real option" where
  "result_achieved B result = parse_numeric B (get_achieved_value (r_achieved result))"

fun extract_loop ::
  "builtins \<Rightarrow> (string \<times> constraint_meta) list \<Rightarrow> (string \<rightharpoonup> pyval) \<Rightarrow>
   (string \<times> pyval) list \<Rightarrow> result_doc list \<Rightarrow> (string \<times> real) list \<Rightarrow>
   pyerr + (string \<times> real) list" where
  "extract_loop B constraint_lookup alias_map protocol_structure_map [] matched = Inr matched"
| "extract_loop B constraint_lookup alias_map protocol_structure_map (result # rest) matched =
     (case result_key_str B alias_map protocol_structure_map result of
        Inl e \<Rightarrow> Inl e
      | Inr key_str \<Rightarrow>
          if key_str \<notin> fst ` set constraint_lookup
          then extract_loop B constraint_lookup alias_map protocol_structure_map rest matched
          else
            (case result_achieved B result of
               Inl e \<Rightarrow> Inl e
             | Inr None \<Rightarrow>
                 extract_loop B constraint_lookup alias_map protocol_structure_map rest matched
             | Inr (Some achieved_value) \<Rightarrow>
                 if key_str \<in> fst ` set matched
                 then extract_loop B constraint_lookup alias_map protocol_structure_map rest matched
                 else extract_loop B constraint_lookup alias_map protocol_structure_map rest
                        (matched @ [(key_str, achieved_value)])))"

text \<open>The results cell is \<open>None\<close> when it is \<^verbatim>\<open>None\<close> or a missing value.\<close>

definition extract_plan_constraints ::
  "builtins \<Rightarrow> result_doc list option \<Rightarrow> (string \<times> constraint_meta) list \<Rightarrow>
   (string \<rightharpoonup> pyval) \<Rightarrow> (string \<times> pyval) list \<Rightarrow> pyerr + (string \<times> real) list" where
  "extract_plan_constraints B results constraint_lookup alias_map protocol_structure_map =
     (case results of
        None \<Rightarrow> Inr []
      | Some iterable \<Rightarrow>
          extract_loop B constraint_lookup alias_map protocol_structure_map iterable [])"

text \<open>
  The constraint key of a result record in the specification's words: the seven fields
  structure, metric, goal operator, goal value, variation operator, variation value and
  priority, each in its normal form and empty when absent, written one after the other
  with \<open>||\<close> between them. The structure is the resolution of the record's label
  (the TG-263 name when it is a true value, the plain name otherwise); the metric is
  the display name when it is a true value, the objective otherwise. Text is canonical
  text; an operator is trimmed and, unless it is one of the four comparison symbols,
  lower-cased; a number is the parsed value; the priority is its integer value.
\<close>

definition text_field :: "builtins \<Rightarrow> pyval \<Rightarrow> string" where
  "text_field B v = (if v = PNone then [] else canonical_text (text_of B v))"

definition operator_field :: "string option \<Rightarrow> string" where
  "operator_field operator =
     (case operator of
        None \<Rightarrow> []
      | Some s \<Rightarrow>
          if py_strip s \<in> {''<='', ''<'', ''>='', ''>''} then py_strip s
          else py_lower (py_strip s))"

definition number_field :: "builtins \<Rightarrow> real option \<Rightarrow> string" where
  "number_field B x = (case x of None \<Rightarrow> [] | Some y \<Rightarrow> str_of_float B y)"

definition priority_field :: "builtins \<Rightarrow> pyval \<Rightarrow> string" where
  "priority_field B p = (case priority_int B p of None \<Rightarrow> [] | Some i \<Rightarrow> str_of_int B i)"

definition record_key ::
  "builtins \<Rightarrow> (string \<rightharpoonup> pyval) \<Rightarrow> (string \<times> pyval) list \<Rightarrow> result_doc \<Rightarrow> pyerr + string" where
  "record_key B alias_table vocabulary r =
     (case resolution B
             (if py_truthy (r_structure_tg263 r) then r_structure_tg263 r else r_structure r)
             alias_table vocabulary of
        Inl e \<Rightarrow> Inl e
      | Inr structure \<Rightarrow>
          (case parse_numeric B (get_value (r_goal r)) of
             Inl e \<Rightarrow> Inl e
           | Inr goal_value \<Rightarrow>
               (case parse_numeric B (get_value (r_variation r)) of
                  Inl e \<Rightarrow> Inl e
                | Inr variation_value \<Rightarrow>
                    Inr (text_field B structure @ ''||'' @
                         text_field B
                           (if py_truthy (get_display (r_metric r)) then get_display (r_metric r)
                            else r_objective r) @ ''||'' @
                         operator_field (get_operator (r_goal r)) @ ''||'' @
                         number_field B goal_value @ ''||'' @
                         operator_field (get_operator (r_variation r)) @ ''||'' @
                         number_field B variation_value @ ''||'' @
                         priority_field B (r_priority r)))))"

text \<open>
  The extraction in the specification's words. A record counts for a key when its
  constraint key is that key, the key is in the constraint index and its achieved value
  parses to a number; the value recorded for a key is the one of the first such record.
\<close>

definition counts_for ::
  "builtins \<Rightarrow> (string \<times> constraint_meta) list \<Rightarrow> (string \<rightharpoonup> pyval) \<Rightarrow>
   (string \<times> pyval) list \<Rightarrow> string \<Rightarrow> result_doc \<Rightarrow> bool" where
  "counts_for B constraint_index alias_table vocabulary k r =
     (record_key B alias_table vocabulary r = Inr k \<and>
      k \<in> fst ` set constraint_index \<and>
      (case parse_numeric B (get_achieved_value (r_achieved r)) of
         Inr (Some v) \<Rightarrow> True
       | _ \<Rightarrow> False))"

definition first_achieved ::
  "builtins \<Rightarrow> (string \<times> constraint_meta) list \<Rightarrow> (string \<rightharpoonup> pyval) \<Rightarrow>
   (string \<times> pyval) list \<Rightarrow> result_doc list \<Rightarrow> string \<Rightarrow> real option" where
  "first_achieved B constraint_index alias_table vocabulary results k =
     (case find (counts_for B constraint_index alias_table vocabulary k) results of
        None \<Rightarrow> None
      | Some r \<Rightarrow>
          (case parse_numeric B (get_achieved_value (r_achieved r)) of
             Inr a \<Rightarrow> a
           | Inl e \<Rightarrow> None))"

section \<open>Stability experiment (scripts/step3_stability_experiment.py)\<close>

text \<open>
  \<^verbatim>\<open>np.mean\<close> of an empty array is not-a-number. \<^verbatim>\<open>np.quantile\<close> interpolates
  linearly between the two order statistics around the position \<open>q * (n - 1)\<close>.
\<close>

definition np_mean :: "real list \<Rightarrow> pyfloat" where
  "np_mean xs = (if xs = [] then NaN else Fl (sum_list xs / real (length xs)))"

definition np_quantile :: "real list \<Rightarrow> real \<Rightarrow> real" where
  "np_quantile xs q =
     (let s = sort xs;
          n = length s;
          h = q * (real n - 1);
          lo = nat \<lfloor>h\<rfloor>;
          hi = min (lo + 1) (n - 1)
      in s ! lo + (s ! hi - s ! lo) * (h - real lo))"

definition ks_distance :: "real list \<Rightarrow> real list \<Rightarrow> pyfloat" where
  "ks_distance values_a values_b =
     (if values_a = [] \<or> values_b = [] then NaN
      else
        let a_sorted = sort values_a;
            b_sorted = sort values_b;
            combined = sort (remdups (a_sorted @ b_sorted));
            cdf_a = map (\<lambda>x. real (searchsorted_right a_sorted x) / real (length a_sorted)) combined;
            cdf_b = map (\<lambda>x. real (searchsorted_right b_sorted x) / real (length b_sorted)) combined
        in Fl (Max (set (map2 (\<lambda>p q. \<bar>p - q\<bar>) cdf_a cdf_b))))"

definition wasserstein_distance :: "real list \<Rightarrow> real list \<Rightarrow> pyfloat" where
  "wasserstein_distance values_a values_b =
     (if values_a = [] \<or> values_b = [] then NaN
      else
        let n = min (length values_a) (length values_b);
            a_sorted = take n (sort values_a);
            b_sorted = take n (sort values_b)
        in np_mean (map2 (\<lambda>p q. \<bar>p - q\<bar>) a_sorted b_sorted))"

definition bottom_decile_agreement :: "real list \<Rightarrow> real list \<Rightarrow> pyfloat" where
  "bottom_decile_agreement values_a values_b =
     (if values_a = [] \<or> values_b = [] then NaN
      else
        let threshold_a = np_quantile values_a (1 / 10);
            threshold_b = np_quantile values_b (1 / 10);
            labels_a = map (\<lambda>x. x \<le> threshold_a) values_a;
            labels_b = map (\<lambda>x. x \<le> threshold_b) values_b
        in np_mean (map2 (\<lambda>p q. if p = q then 1 else 0) labels_a labels_b))"

text \<open>
  \<open>estimate_n_star\<close>. The sampled sizes are positive numbers. \<^verbatim>\<open>np.max\<close> of an
  empty array raises \<^verbatim>\<open>ValueError\<close>; \<^verbatim>\<open>sorted\<close> with a key is stable.
\<close>

definition estimate_n_star :: "real list \<Rightarrow> real \<Rightarrow> real \<Rightarrow> real \<Rightarrow> pyerr + int" where
  "estimate_n_star n_values intercept slope plateau_fraction =
     (let predictions = map (\<lambda>n. intercept + slope / sqrt n) n_values
      in if predictions = [] then Inl ValueError
         else
           let max_pred = Max (set predictions);
               target = intercept + plateau_fraction * (max_pred - intercept)
           in case find (\<lambda>(n_value, pred). pred \<le> target)
                     (sort_key fst (zip n_values predictions)) of
                Some (n_value, pred) \<Rightarrow> Inr (py_trunc n_value)
              | None \<Rightarrow> Inr (py_trunc (last n_values)))"

text \<open>
  The sizes \<open>main\<close> passes to \<open>estimate_n_star\<close>: the summary rows of one protocol,
  each a sampled size with its median error, are sorted by size
  (\<^verbatim>\<open>group.sort_values("N")\<close>) and the size column is read off.
\<close>

definition group_n_values :: "(real \<times> real) list \<Rightarrow> real list" where
  "group_n_values summary_rows = map fst (sort_key fst summary_rows)"

subsection \<open>Bootstrap loop of \<open>main\<close>\<close>

record stability_record =
  s_protocol :: string
  s_N :: nat
  bootstrap_id :: nat
  train_size :: nat
  test_size :: nat
  valid_plans :: nat
  mae :: pyfloat
  ks :: pyfloat
  wasserstein :: pyfloat
  s_bottom_decile_agreement :: pyfloat

text \<open>\<^verbatim>\<open>Series.notna()\<close>: \<^verbatim>\<open>None\<close> and not-a-number are both missing.\<close>

fun notna :: "pyfloat option \<Rightarrow> bool" where
  "notna None = False"
| "notna (Some NaN) = False"
| "notna (Some (Fl x)) = True"

fun to_float :: "pyfloat option \<Rightarrow> real" where
  "to_float (Some (Fl x)) = x"
| "to_float _ = 0"

text \<open>\<^verbatim>\<open>frame.iloc[idx]\<close> raises \<^verbatim>\<open>IndexError\<close> on a position out of bounds.\<close>

definition iloc :: "'a list \<Rightarrow> nat list \<Rightarrow> pyerr + 'a list" where
  "iloc rows idx =
     (if \<forall>i \<in> set idx. i < length rows then Inr (map (\<lambda>i. rows ! i) idx) else Inl IndexError)"

text \<open>
  One pass of the inner loop body. The generator's draw \<open>sample_idx\<close> is an argument.
  The result is \<open>None\<close> where the source executes \<^verbatim>\<open>continue\<close>.
\<close>

definition bootstrap_draw ::
  "string \<Rightarrow> plan_row list \<Rightarrow> plan_row list \<Rightarrow> (string \<times> constraint_meta) list \<Rightarrow>
   (string \<rightharpoonup> string) \<Rightarrow> (string \<rightharpoonup> real) \<Rightarrow> int \<Rightarrow> nat \<Rightarrow> nat \<Rightarrow> nat list \<Rightarrow>
   pyerr + stability_record option" where
  "bootstrap_draw protocol train_df test_df constraint_lookup dirs ws min_valid
       sample_size bootstrap_id' sample_idx =
     (case iloc train_df sample_idx of
        Inl e \<Rightarrow> Inl e
      | Inr sample_df \<Rightarrow>
          let reference_sample =
                build_reference_from_plan_constraints sample_df constraint_lookup dirs ws;
              sample_scores = score_plan_constraints_df test_df reference_sample;
              full_scores = map plan_score_full test_df;
              valid_mask = map2 (\<lambda>s f. notna s \<and> notna f) sample_scores full_scores;
              valid_count = length (filter (\<lambda>b. b) valid_mask)
          in if int valid_count < min_valid then Inr None
             else
               let sample_values =
                     map (to_float \<circ> fst) (filter snd (zip sample_scores valid_mask));
                   full_values =
                     map (to_float \<circ> fst) (filter snd (zip full_scores valid_mask))
               in Inr (Some
                    \<lparr>s_protocol = protocol,
                     s_N = sample_size,
                     bootstrap_id = bootstrap_id',
                     train_size = length train_df,
                     test_size = length test_df,
                     valid_plans = valid_count,
                     mae = np_mean (map2 (\<lambda>p q. \<bar>p - q\<bar>) sample_values full_values),
                     ks = ks_distance sample_values full_values,
                     wasserstein = wasserstein_distance sample_values full_values,
                     s_bottom_decile_agreement =
                       bottom_decile_agreement sample_values full_values\<rparr>))"

text \<open>
  The two nested loops. \<open>draw sample_size bootstrap_id\<close> is what
  \<^verbatim>\<open>rng.integers(0, len(train_df), size=sample_size)\<close> returns in that iteration.
\<close>

fun bootstrap_ids_loop ::
  "(nat \<Rightarrow> nat \<Rightarrow> nat list) \<Rightarrow> string \<Rightarrow> plan_row list \<Rightarrow> plan_row list \<Rightarrow>
   (string \<times> constraint_meta) list \<Rightarrow> (string \<rightharpoonup> string) \<Rightarrow> (string \<rightharpoonup> real) \<Rightarrow> int \<Rightarrow>
   nat \<Rightarrow> nat list \<Rightarrow> stability_record list \<Rightarrow> pyerr + stability_record list" where
  "bootstrap_ids_loop draw protocol train_df test_df constraint_lookup dirs ws min_valid
       sample_size [] raw_rows = Inr raw_rows"
| "bootstrap_ids_loop draw protocol train_df test_df constraint_lookup dirs ws min_valid
       sample_size (b # bs) raw_rows =
     (case bootstrap_draw protocol train_df test_df constraint_lookup dirs ws min_valid
             sample_size b (draw sample_size b) of
        Inl e \<Rightarrow> Inl e
      | Inr None \<Rightarrow>
          bootstrap_ids_loop draw protocol train_df test_df constraint_lookup dirs ws
            min_valid sample_size bs raw_rows
      | Inr (Some row) \<Rightarrow>
          bootstrap_ids_loop draw protocol train_df test_df constraint_lookup dirs ws
            min_valid sample_size bs (raw_rows @ [row]))"

fun bootstrap_loop ::
  "(nat \<Rightarrow> nat \<Rightarrow> nat list) \<Rightarrow> string \<Rightarrow> plan_row list \<Rightarrow> plan_row list \<Rightarrow>
   (string \<times> constraint_meta) list \<Rightarrow> (string \<rightharpoonup> string) \<Rightarrow> (string \<rightharpoonup> real) \<Rightarrow> int \<Rightarrow>
   nat \<Rightarrow> nat list \<Rightarrow> stability_record list \<Rightarrow> pyerr + stability_record list" where
  "bootstrap_loop draw protocol train_df test_df constraint_lookup dirs ws min_valid
       bootstraps [] raw_rows = Inr raw_rows"
| "bootstrap_loop draw protocol train_df test_df constraint_lookup dirs ws min_valid
       bootstraps (sample_size # sizes) raw_rows =
     (case bootstrap_ids_loop draw protocol train_df test_df constraint_lookup dirs ws
             min_valid sample_size [0..<bootstraps] raw_rows of
        Inl e \<Rightarrow> Inl e
      | Inr raw_rows \<Rightarrow>
          bootstrap_loop draw protocol train_df test_df constraint_lookup dirs ws min_valid
            bootstraps sizes raw_rows)"

text \<open>
  The number of plans of the test set that are scoreable under both the reference of a
  draw and the full-population reference.
\<close>

definition jointly_scoreable ::
  "plan_row list \<Rightarrow> plan_row list \<Rightarrow> (string \<times> constraint_meta) list \<Rightarrow>
   (string \<rightharpoonup> string) \<Rightarrow> (string \<rightharpoonup> real) \<Rightarrow> nat list \<Rightarrow> nat" where
  "jointly_scoreable train_df test_df constraint_lookup dirs ws sample_idx =
     length (filter
       (\<lambda>row. notna (plan_score_full row) \<and>
          notna (case plan_constraints row of
                   None \<Rightarrow> None
                 | Some pc \<Rightarrow>
                     compute_plan_score pc
                       (distributions (build_reference_from_plan_constraints
                          (map (\<lambda>i. train_df ! i) sample_idx) constraint_lookup dirs ws))
                       dirs ws))
       test_df)"

text \<open>What the specification asks of a retained stability record.\<close>

definition draw_ok ::
  "(nat \<Rightarrow> nat \<Rightarrow> nat list) \<Rightarrow> plan_row list \<Rightarrow> plan_row list \<Rightarrow>
   (string \<times> constraint_meta) list \<Rightarrow> (string \<rightharpoonup> string) \<Rightarrow> (string \<rightharpoonup> real) \<Rightarrow> int \<Rightarrow>
   stability_record \<Rightarrow> bool" where
  "draw_ok draw train_df test_df L dirs ws min_valid r =
     (min_valid \<le> int (valid_plans r) \<and> valid_plans r \<le> test_size r \<and>
      test_size r = length test_df \<and>
      valid_plans r =
        jointly_scoreable train_df test_df L dirs ws (draw (s_N r) (bootstrap_id r)))"

section \<open>Example data\<close>

text \<open>A small protocol with one constraint, used to instantiate the theorems below.\<close>

definition ex_builtins :: builtins where
  "ex_builtins =
     \<lparr>float_of_str = (\<lambda>s. if s = ''12.5'' then Some (25 / 2) else None),
      int_of_str = (\<lambda>s. if s = ''2'' then Some 2 else None),
      str_of_float = (\<lambda>x. if x = 45 then ''45.0'' else ''0.0''),
      str_of_int = (\<lambda>i. if i = 2 then ''2'' else ''1''),
      str_of_obj = (\<lambda>v. if v = PInt 5 then ''5'' else ''obj'')\<rparr>"

definition ex_constraint :: "string \<Rightarrow> constraint_def" where
  "ex_constraint st =
     \<lparr>c_structure = PStr st, c_metric_display = PStr ''dmax'', c_priority = PInt 2,
      c_goal_operator = Some ''<='', c_goal_value = Some 45,
      c_variation_operator = None, c_variation_value = None\<rparr>"

definition ex_constraints :: "constraint_def list" where
  "ex_constraints = [ex_constraint ''cord'']"

definition ex_key :: string where
  "ex_key = ''cord||dmax||<=||45.0||||||2''"

definition ex_key_lung :: string where
  "ex_key_lung = ''lung||dmax||<=||45.0||||||2''"

definition ex_meta_of :: "string \<Rightarrow> constraint_meta" where
  "ex_meta_of st =
     \<lparr>m_structure = PStr st, m_metric_display = PStr ''dmax'',
      m_goal_operator = Some ''<='', m_goal_value = Some 45,
      m_variation_operator = None, m_variation_value = None, m_priority = Some 2\<rparr>"

definition ex_meta :: constraint_meta where
  "ex_meta = ex_meta_of ''cord''"

definition ex_row :: "real \<Rightarrow> plan_row" where
  "ex_row v =
     \<lparr>patient_id = PNone, plan_id = PNone, plan_constraints = Some [(ex_key, v)],
      plan_score_full = None\<rparr>"

definition ex_vocabulary :: "(string \<times> pyval) list" where
  "ex_vocabulary =
     [(''cord'', PStr ''Cord''), (''spinal cord'', PStr ''Spinal Cord''),
      (''prv cord'', PStr ''PRV cord'')]"

definition ex_result :: "string \<Rightarrow> pyval \<Rightarrow> result_doc" where
  "ex_result st v =
     \<lparr>r_metric = Some \<lparr>display = PStr ''Dmax''\<rparr>, r_objective = PNone,
      r_structure_tg263 = PNone, r_structure = PStr st, r_priority = PInt 2,
      r_goal = Some \<lparr>b_operator = Some ''<='', b_value = PFloat 45\<rparr>, r_variation = None,
      r_achieved = Some \<lparr>a_value = v\<rparr>\<rparr>"

definition ex_results :: "result_doc list" where
  "ex_results =
     [ex_result ''cord'' (PStr ''n/a''), ex_result ''Cord'' (PFloat 12),
      ex_result ''lung'' (PFloat 3), ex_result ''heart'' (PFloat 9),
      ex_result ''cord'' (PFloat 15), ex_result ''lung'' (PStr ''12.5'')]"

definition ex_index :: "(string \<times> constraint_meta) list" where
  "ex_index = [(ex_key, ex_meta_of ''cord''), (ex_key_lung, ex_meta_of ''lung'')]"

definition ex_structures :: "(string \<times> pyval) list" where
  "ex_structures = [(''cord'', PStr ''cord''), (''lung'', PStr ''lung'')]"

definition ex_test_row :: plan_row where
  "ex_test_row =
     \<lparr>patient_id = PNone, plan_id = PNone, plan_constraints = Some [(ex_key, 20)],
      plan_score_full = Some (Fl (1 / 2))\<rparr>"

definition ex_stability_record :: stability_record where
  "ex_stability_record =
     \<lparr>s_protocol = ''p'', s_N = 2, bootstrap_id = 0, train_size = 2, test_size = 1,
      valid_plans = 1, mae = Fl (1 / 2), ks = Fl 1, wasserstein = Fl (1 / 2),
      s_bottom_decile_agreement = Fl 1\<rparr>"

section \<open>Properties of the percentile scorer\<close>

lemma searchsorted_loop_bounds:
  "lo \<le> hi \<Longrightarrow> lo \<le> searchsorted_loop a v lo hi \<and> searchsorted_loop a v lo hi \<le> hi"
proof (induction a v lo hi rule: searchsorted_loop.induct)
  case (1 a v lo hi)
  show ?case
  proof (cases "lo < hi")
    case False
    with "1.prems" show ?thesis by (simp add: searchsorted_loop.simps)
  next
    case True
    define mid where "mid = lo + (hi - lo) div 2"
    have m: "lo \<le> mid" "mid < hi" using True by (auto simp: mid_def)
    show ?thesis
    proof (cases "a ! mid \<le> v")
      case le: True
      have "mid + 1 \<le> hi" using m by simp
      from "1.IH"(1)[OF True mid_def le this]
      show ?thesis using True le m
        by (subst (1 2) searchsorted_loop.simps) (simp add: mid_def[symmetric] Let_def)
    next
      case gt: False
      have "lo \<le> mid" using m by simp
      from "1.IH"(2)[OF True mid_def gt this]
      show ?thesis using True gt m
        by (subst (1 2) searchsorted_loop.simps) (simp add: mid_def[symmetric] Let_def)
    qed
  qed
qed

lemma searchsorted_loop_split:
  assumes "sorted a" "lo \<le> hi" "hi \<le> length a"
    and "\<forall>j<lo. a ! j \<le> v" "\<forall>j. hi \<le> j \<and> j < length a \<longrightarrow> v < a ! j"
  shows "(\<forall>j < searchsorted_loop a v lo hi. a ! j \<le> v) \<and>
         (\<forall>j. searchsorted_loop a v lo hi \<le> j \<and> j < length a \<longrightarrow> v < a ! j)"
  using assms
proof (induction a v lo hi rule: searchsorted_loop.induct)
  case (1 a v lo hi)
  show ?case
  proof (cases "lo < hi")
    case False
    with "1.prems" have "lo = hi" by simp
    with "1.prems" False show ?thesis by (simp add: searchsorted_loop.simps)
  next
    case True
    define mid where "mid = lo + (hi - lo) div 2"
    have m: "lo \<le> mid" "mid < hi" using True by (auto simp: mid_def)
    show ?thesis
    proof (cases "a ! mid \<le> v")
      case le: True
      have below: "\<forall>j<mid + 1. a ! j \<le> v"
      proof (intro allI impI)
        fix j assume "j < mid + 1"
        then have "j \<le> mid" by simp
        moreover have "mid < length a" using m "1.prems"(3) by simp
        ultimately have "a ! j \<le> a ! mid" using \<open>sorted a\<close> by (simp add: sorted_nth_mono)
        with le show "a ! j \<le> v" by simp
      qed
      have "mid + 1 \<le> hi" using m by simp
      from "1.IH"(1)[OF True mid_def le \<open>sorted a\<close> this "1.prems"(3) below "1.prems"(5)]
      show ?thesis using True le
        by (subst (1 2) searchsorted_loop.simps) (simp add: mid_def[symmetric] Let_def)
    next
      case gt: False
      have above: "\<forall>j. mid \<le> j \<and> j < length a \<longrightarrow> v < a ! j"
      proof (intro allI impI)
        fix j assume "mid \<le> j \<and> j < length a"
        then have "a ! mid \<le> a ! j" using \<open>sorted a\<close> by (simp add: sorted_nth_mono)
        with gt show "v < a ! j" by simp
      qed
      have "lo \<le> mid" "mid \<le> length a" using m "1.prems"(3) by simp_all
      from "1.IH"(2)[OF True mid_def gt \<open>sorted a\<close> this "1.prems"(4) above]
      show ?thesis using True gt
        by (subst (1 2) searchsorted_loop.simps) (simp add: mid_def[symmetric] Let_def)
    qed
  qed
qed

lemma filter_le_split:
  assumes "r \<le> length xs" "\<forall>j<r. xs ! j \<le> (v::real)" "\<forall>j. r \<le> j \<and> j < length xs \<longrightarrow> v < xs ! j"
  shows "length (filter (\<lambda>x. x \<le> v) xs) = r"
proof -
  have t: "filter (\<lambda>x. x \<le> v) (take r xs) = take r xs"
    using assms(1,2) by (auto simp: filter_id_conv in_set_conv_nth)
  have d: "filter (\<lambda>x. x \<le> v) (drop r xs) = []"
  proof -
    have "\<not> x \<le> v" if "x \<in> set (drop r xs)" for x
    proof -
      from that obtain i where i: "i < length xs - r" "x = xs ! (r + i)"
        by (auto simp: in_set_conv_nth)
      then have "v < xs ! (r + i)" using assms(3) by simp
      with i show ?thesis by simp
    qed
    then show ?thesis by (simp add: filter_empty_conv)
  qed
  have "filter (\<lambda>x. x \<le> v) xs = filter (\<lambda>x. x \<le> v) (take r xs @ drop r xs)" by simp
  also have "\<dots> = take r xs" using t d by (simp only: filter_append) simp
  finally show ?thesis using assms(1) by simp
qed

lemma searchsorted_right_sorted:
  assumes "sorted a"
  shows "searchsorted_right a v = right_insertion_index a v"
proof -
  let ?r = "searchsorted_loop a v 0 (length a)"
  have b: "?r \<le> length a" using searchsorted_loop_bounds[of 0 "length a" a v] by simp
  have s: "(\<forall>j < ?r. a ! j \<le> v) \<and> (\<forall>j. ?r \<le> j \<and> j < length a \<longrightarrow> v < a ! j)"
    by (rule searchsorted_loop_split[OF assms]) simp_all
  show ?thesis unfolding searchsorted_right_def right_insertion_index_def
    using filter_le_split[OF b] s by simp
qed

lemma right_insertion_index_le: "right_insertion_index xs v \<le> length xs"
  by (simp add: right_insertion_index_def)

lemma right_insertion_index_mono:
  assumes "a \<le> b"
  shows "right_insertion_index xs a \<le> right_insertion_index xs b"
  unfolding right_insertion_index_def
proof (induction xs)
  case Nil
  show ?case by simp
next
  case (Cons x xs)
  then show ?case using assms by auto
qed

lemma clamp_rank:
  fixes n r :: nat
  assumes "1 \<le> n" "r \<le> n"
  shows "(if (if int r < 1 then 1 else int r) > int n then int n
          else (if int r < 1 then 1 else int r)) = int (max 1 (min n r))"
proof (cases "r = 0")
  case True
  with assms show ?thesis by simp
next
  case False
  with assms show ?thesis by (simp add: max_def min_def)
qed

lemma compute_percentile_sorted:
  assumes "sorted xs" "xs \<noteq> []"
  shows "compute_percentile v xs d =
           Fl (if d = ''lower'' then 1 - percentile_base xs v else percentile_base xs v)"
proof -
  let ?n = "length xs"
  let ?r = "right_insertion_index xs v"
  have n: "1 \<le> ?n" using assms(2) by (cases xs) simp_all
  have r: "searchsorted_right xs v = ?r" by (rule searchsorted_right_sorted[OF assms(1)])
  have le: "?r \<le> ?n" by (rule right_insertion_index_le)
  have clamp: "(if (if int ?r < 1 then 1 else int ?r) > int ?n then int ?n
                else (if int ?r < 1 then 1 else int ?r)) = int (max 1 (min ?n ?r))"
    by (rule clamp_rank[OF n le])
  have cast: "real_of_int (int (max 1 (min ?n ?r))) = real (max 1 (min ?n ?r))"
    by (simp only: of_int_of_nat_eq)
  have n0: "(?n = 0) = False" using assms(2) by simp
  have "compute_percentile v xs d =
          (if d = ''lower''
           then Fl (1 - (if ?n = 1 then 1
                         else (real_of_int (int (max 1 (min ?n ?r))) - 1) / (real ?n - 1)))
           else Fl (if ?n = 1 then 1
                    else (real_of_int (int (max 1 (min ?n ?r))) - 1) / (real ?n - 1)))"
    unfolding compute_percentile_def Let_def r clamp n0 by (simp only: if_False)
  then show ?thesis
    unfolding cast percentile_base_def Let_def by (simp only: if_distrib[of Fl])
qed

lemma percentile_base_bounds:
  assumes "xs \<noteq> []"
  shows "0 \<le> percentile_base xs v \<and> percentile_base xs v \<le> 1"
proof (cases "length xs = 1")
  case True
  then show ?thesis by (simp add: percentile_base_def)
next
  case False
  with assms have n: "2 \<le> length xs" by (cases xs) (auto simp: Suc_le_eq)
  let ?rank = "max 1 (min (length xs) (right_insertion_index xs v))"
  have "1 \<le> ?rank" "?rank \<le> length xs" using n by simp_all
  then have "0 \<le> real ?rank - 1" "real ?rank - 1 \<le> real (length xs) - 1" by linarith+
  moreover have "0 < real (length xs) - 1" using n by simp
  ultimately have "0 \<le> (real ?rank - 1) / (real (length xs) - 1)"
    and "(real ?rank - 1) / (real (length xs) - 1) \<le> 1"
    by (simp_all add: divide_le_eq_1)
  with False show ?thesis by (simp add: percentile_base_def Let_def)
qed

lemma percentile_base_mono:
  assumes "a \<le> b"
  shows "percentile_base xs a \<le> percentile_base xs b"
proof (cases "length xs \<le> 1")
  case True
  then have "length xs = 1 \<or> length xs = 0" by linarith
  then show ?thesis
    by (auto simp: percentile_base_def right_insertion_index_def)
next
  case False
  then have pos: "0 < real (length xs) - 1" by simp
  let ?ra = "max 1 (min (length xs) (right_insertion_index xs a))"
  let ?rb = "max 1 (min (length xs) (right_insertion_index xs b))"
  have "?ra \<le> ?rb" using right_insertion_index_mono[OF assms, of xs] by (simp add: max_def min_def)
  then have "real ?ra - 1 \<le> real ?rb - 1" by linarith
  then have "(real ?ra - 1) / (real (length xs) - 1) \<le> (real ?rb - 1) / (real (length xs) - 1)"
    using pos by (simp add: divide_right_mono)
  with False show ?thesis by (simp add: percentile_base_def Let_def)
qed

text \<open>
  C1. On a non-empty ascending array of size \<open>n\<close> and for the directions
  \<open>lower\<close> and \<open>higher\<close>, \<open>compute_percentile\<close> returns the number built from
  \<open>base = 1\<close> when \<open>n = 1\<close> and \<open>base = (rank - 1) / (n - 1)\<close> otherwise, where
  \<open>rank\<close> is the right-insertion index of the value clamped to \<open>[1, n]\<close>: it is
  \<open>1 - base\<close> for \<open>lower\<close> and \<open>base\<close> for \<open>higher\<close>. For the distribution
  \<open>10, 20, 30\<close>, direction \<open>lower\<close> and the value \<open>20\<close> the result is \<open>0.5\<close>.
\<close>

theorem compute_percentile_formula:
  "(sorted xs \<and> xs \<noteq> [] \<and> d \<in> {''lower'', ''higher''} \<longrightarrow>
      compute_percentile v xs d =
        Fl (let n = length xs;
                rank = max 1 (min n (right_insertion_index xs v));
                base = (if n = 1 then 1 else (real rank - 1) / (real n - 1))
            in if d = ''lower'' then 1 - base else base))
   \<and> compute_percentile 20 [10, 20, 30] ''lower'' = Fl (1 / 2)"
proof (intro conjI impI)
  assume "sorted xs \<and> xs \<noteq> [] \<and> d \<in> {''lower'', ''higher''}"
  then show "compute_percentile v xs d =
        Fl (let n = length xs;
                rank = max 1 (min n (right_insertion_index xs v));
                base = (if n = 1 then 1 else (real rank - 1) / (real n - 1))
            in if d = ''lower'' then 1 - base else base)"
    by (simp add: compute_percentile_sorted percentile_base_def Let_def)
next
  show "compute_percentile 20 [10, 20, 30] ''lower'' = Fl (1 / 2)"
    by (simp add: compute_percentile_def searchsorted_right_def searchsorted_loop.simps Let_def)
qed

theorem compute_percentile_formula_witness:
  "sorted [10, 20, 30 :: real] \<and> [10, 20, 30 :: real] \<noteq> [] \<and>
   ''higher'' \<in> {''lower'', ''higher''} \<and>
   compute_percentile 35 [10, 20, 30] ''higher'' = Fl 1"
proof -
  have h: "sorted [10, 20, 30 :: real] \<and> [10, 20, 30 :: real] \<noteq> [] \<and>
           ''higher'' \<in> {''lower'', ''higher''}"
    by simp
  from compute_percentile_formula[of "[10, 20, 30]" "''higher''" 35, THEN conjunct1, rule_format, OF h]
  have "compute_percentile 35 [10, 20, 30] ''higher'' = Fl 1"
    by (simp add: right_insertion_index_def)
  with h show ?thesis by blast
qed

text \<open>
  C4. On a fixed non-empty ascending distribution with direction \<open>lower\<close>, a smaller
  achieved value never gets a smaller percentile: for \<open>a < b\<close> both percentiles are
  numbers and the one of \<open>a\<close> is at least the one of \<open>b\<close>.
\<close>

theorem compute_percentile_monotone:
  assumes "sorted xs" and "xs \<noteq> []" and "a < b"
  shows "\<exists>pa pb. compute_percentile a xs ''lower'' = Fl pa \<and>
                 compute_percentile b xs ''lower'' = Fl pb \<and> pb \<le> pa"
proof -
  have "percentile_base xs a \<le> percentile_base xs b"
    using assms(3) by (simp add: percentile_base_mono)
  then have "1 - percentile_base xs b \<le> 1 - percentile_base xs a" by simp
  then show ?thesis
    using compute_percentile_sorted[OF assms(1,2)] by simp
qed

theorem compute_percentile_monotone_witness:
  "sorted [10, 20, 30 :: real] \<and> [10, 20, 30 :: real] \<noteq> [] \<and> (5 :: real) < 20 \<and>
   (\<exists>pa pb. compute_percentile 5 [10, 20, 30] ''lower'' = Fl pa \<and>
            compute_percentile 20 [10, 20, 30] ''lower'' = Fl pb \<and> pb \<le> pa)"
proof -
  have s: "sorted [10, 20, 30 :: real]" and n: "[10, 20, 30 :: real] \<noteq> []"
    and l: "(5 :: real) < 20"
    by simp_all
  from compute_percentile_monotone[OF s n l] s n l show ?thesis by blast
qed

subsection \<open>The weighted mean\<close>

lemma compute_percentile_bounds:
  assumes "xs \<noteq> []"
  shows "\<exists>p. compute_percentile v xs d = Fl p \<and> 0 \<le> p \<and> p \<le> 1"
proof (cases "length xs = 1")
  case True
  then show ?thesis by (simp add: compute_percentile_def)
next
  case False
  with assms have n: "2 \<le> length xs" by (cases xs) (auto simp: Suc_le_eq)
  define r where "r = int (searchsorted_right xs v)"
  define r1 where "r1 = (if r < 1 then 1 else r)"
  define rank where "rank = (if r1 > int (length xs) then int (length xs) else r1)"
  define base where "base = (real_of_int rank - 1) / (real (length xs) - 1)"
  have "1 \<le> rank" "rank \<le> int (length xs)"
    using n by (auto simp: rank_def r1_def)
  then have "0 \<le> real_of_int rank - 1" "real_of_int rank - 1 \<le> real (length xs) - 1"
    by linarith+
  moreover have "0 < real (length xs) - 1" using n by simp
  ultimately have b: "0 \<le> base" "base \<le> 1"
    by (simp_all add: base_def divide_le_eq_1)
  have "compute_percentile v xs d = (if d = ''lower'' then Fl (1 - base) else Fl base)"
    using assms False
    by (simp add: compute_percentile_def Let_def base_def rank_def r1_def r_def)
  with b show ?thesis by simp
qed

lemma score_loop_weight:
  "fst (score_loop plan D R W tw ts) = tw + usable_weight plan D R W"
proof (induction plan arbitrary: tw ts)
  case Nil
  show ?case by (simp add: usable_weight_def)
next
  case (Cons kv plan)
  obtain k v where kv: "kv = (k, v)" by (cases kv)
  show ?case
  proof (cases "D k \<noteq> None \<and> R k \<noteq> None \<and> W k \<noteq> None")
    case True
    then obtain dv dr w where g: "D k = Some dv" "R k = Some dr" "W k = Some w" by auto
    have "usable_weight (kv # plan) D R W = w + usable_weight plan D R W"
      using g by (simp add: usable_weight_def kv)
    then show ?thesis using g Cons.IH by (simp add: kv Let_def)
  next
    case False
    have u: "usable_weight (kv # plan) D R W = usable_weight plan D R W"
      using False by (auto simp: usable_weight_def kv)
    have "score_loop (kv # plan) D R W tw ts = score_loop plan D R W tw ts"
      using False by (auto simp: kv split: option.splits)
    then show ?thesis using u Cons.IH by simp
  qed
qed

lemma usable_weight_no_overlap:
  assumes "fst ` set plan \<inter> dom D = {}"
  shows "usable_weight plan D R W = 0"
proof -
  have "filter (\<lambda>(k, v). D k \<noteq> None \<and> R k \<noteq> None \<and> W k \<noteq> None) plan = []"
    using assms by (force simp: filter_empty_conv dom_def)
  then show ?thesis by (simp add: usable_weight_def)
qed

lemma compute_plan_score_zero_weight:
  assumes "usable_weight plan D R W = 0"
  shows "compute_plan_score plan D R W = None"
proof -
  obtain tw ts where l: "score_loop plan D R W 0 (Fl 0) = (tw, ts)"
    by (cases "score_loop plan D R W 0 (Fl 0)")
  have "tw = 0" using score_loop_weight[of plan D R W 0 "Fl 0"] l assms by simp
  with l show ?thesis by (simp add: compute_plan_score_def)
qed

lemma score_loop_invariant:
  assumes wpos: "\<forall>k w. W k = Some w \<longrightarrow> 0 < w"
    and nonempty: "\<forall>k dv. D k = Some dv \<longrightarrow> dv \<noteq> []"
    and "0 \<le> ts" "ts \<le> tw"
  shows "\<exists>tw' ts'. score_loop plan D R W tw (Fl ts) = (tw', Fl ts') \<and> 0 \<le> ts' \<and> ts' \<le> tw'"
  using assms(3,4)
proof (induction plan arbitrary: tw ts)
  case Nil
  then show ?case by simp
next
  case (Cons kv plan)
  obtain k v where kv: "kv = (k, v)" by (cases kv)
  show ?case
  proof (cases "D k \<noteq> None \<and> R k \<noteq> None \<and> W k \<noteq> None")
    case True
    then obtain dv dr w where g: "D k = Some dv" "R k = Some dr" "W k = Some w" by auto
    have w: "0 < w" using wpos g(3) by blast
    have "dv \<noteq> []" using nonempty g(1) by blast
    then obtain p where p: "compute_percentile v dv dr = Fl p" "0 \<le> p" "p \<le> 1"
      using compute_percentile_bounds by blast
    have step: "score_loop (kv # plan) D R W tw (Fl ts) =
                  score_loop plan D R W (tw + w) (Fl (ts + w * p))"
      using g p(1) by (simp add: kv Let_def)
    have "w * p \<le> w" using w p(3) by (simp add: mult_left_le)
    then have "0 \<le> ts + w * p" "ts + w * p \<le> tw + w"
      using Cons.prems w p(2) by (simp_all add: add_mono)
    from Cons.IH[OF this] show ?thesis by (simp only: step)
  next
    case False
    have "score_loop (kv # plan) D R W tw (Fl ts) = score_loop plan D R W tw (Fl ts)"
      using False by (auto simp: kv split: option.splits)
    with Cons.IH[OF Cons.prems] show ?thesis by simp
  qed
qed

lemma compute_plan_score_bounds:
  assumes "\<forall>k w. W k = Some w \<longrightarrow> 0 < w"
    and "\<forall>k dv. D k = Some dv \<longrightarrow> dv \<noteq> []"
    and "compute_plan_score plan D R W = Some s"
  shows "\<exists>x. s = Fl x \<and> 0 \<le> x \<and> x \<le> 1"
proof -
  obtain tw ts where l: "score_loop plan D R W 0 (Fl 0) = (tw, Fl ts)" "0 \<le> ts" "ts \<le> tw"
    using score_loop_invariant[OF assms(1,2), of 0 0 plan R] by auto
  from assms(3) l(1) have nz: "tw \<noteq> 0" and s: "s = Fl (ts / tw)"
    by (auto simp: compute_plan_score_def split: if_splits)
  from nz l(2,3) have "0 < tw" by simp
  with l(2,3) have "0 \<le> ts / tw" "ts / tw \<le> 1" by simp_all
  with s show ?thesis by simp
qed

lemma context_loop_weights_positive:
  assumes "context_loop items R W = Inr (R', W')"
    and "\<forall>k w. W k = Some w \<longrightarrow> 0 < w"
  shows "\<forall>k w. W' k = Some w \<longrightarrow> 0 < w"
  using assms
proof (induction items arbitrary: R W)
  case Nil
  then show ?case by simp
next
  case (Cons item items)
  obtain key_str meta where item: "item = (key_str, meta)" by (cases item)
  let ?R = "R(key_str \<mapsto> the (direction_from_operator (m_goal_operator meta)))"
  show ?case
  proof (cases "truthy (direction_from_operator (m_goal_operator meta))")
    case False
    with Cons.prems(1) have "context_loop items R W = Inr (R', W')" by (simp add: item)
    from Cons.IH[OF this Cons.prems(2)] show ?thesis .
  next
    case dir: True
    show ?thesis
    proof (cases "m_priority meta")
      case None
      with dir Cons.prems(1) have "context_loop items ?R W = Inr (R', W')"
        by (simp add: item Let_def)
      from Cons.IH[OF this Cons.prems(2)] show ?thesis .
    next
      case (Some priority)
      show ?thesis
      proof (cases "priority > 0")
        case False
        with dir Some Cons.prems(1) have "context_loop items ?R W = Inr (R', W')"
          by (simp add: item Let_def)
        from Cons.IH[OF this Cons.prems(2)] show ?thesis .
      next
        case True
        with dir Some Cons.prems(1)
        have run: "context_loop items ?R (W(key_str \<mapsto> 1 / real_of_int priority)) = Inr (R', W')"
          by (auto simp: item Let_def float_of_int_def py_div_def split: if_splits sum.splits)
        have "\<forall>k w. (W(key_str \<mapsto> 1 / real_of_int priority)) k = Some w \<longrightarrow> 0 < w"
          using Cons.prems(2) True by auto
        from Cons.IH[OF run this] show ?thesis .
      qed
    qed
  qed
qed

lemma build_constraint_context_weights_positive:
  assumes "build_constraint_context B constraints = Inr (constraint_lookup, psm, dirs, ws)"
  shows "\<forall>k w. ws k = Some w \<longrightarrow> 0 < w"
proof -
  from assms have "context_loop (build_constraint_lookup B constraints) Map.empty Map.empty =
                     Inr (dirs, ws)"
    by (auto simp: build_constraint_context_def Let_def split: sum.splits)
  then show ?thesis by (rule context_loop_weights_positive) simp
qed

lemma sort_eq_Nil: "sort (vs :: real list) = [] \<longleftrightarrow> vs = []"
  by (metis length_sort length_0_conv)

lemma reference_distributions_nonempty:
  "distributions (build_reference_from_plan_constraints population constraint_lookup dirs ws) k
     = Some dv \<Longrightarrow> dv \<noteq> []"
  by (auto simp: build_reference_from_plan_constraints_def Let_def sort_eq_Nil
           split: option.splits if_splits)

text \<open>
  C2. For a reference built from any population of plans, with the directions and
  weights that \<open>build_constraint_context\<close> derives from any constraint definitions,
  and for any plan constraint vector: whenever \<open>compute_plan_score\<close> returns a score,
  that score is a number in the closed interval from 0 to 1.
\<close>

theorem plan_score_in_unit_interval:
  assumes "build_constraint_context B constraints = Inr (constraint_lookup, psm, dirs, ws)"
    and "ref = build_reference_from_plan_constraints population constraint_lookup dirs ws"
    and "compute_plan_score plan (distributions ref) (directions ref) (weights ref) = Some s"
  shows "\<exists>x. s = Fl x \<and> 0 \<le> x \<and> x \<le> 1"
proof -
  have w: "\<forall>k w. weights ref k = Some w \<longrightarrow> 0 < w"
    using build_constraint_context_weights_positive[OF assms(1)] assms(2)
    by (simp add: build_reference_from_plan_constraints_def Let_def)
  have d: "\<forall>k dv. distributions ref k = Some dv \<longrightarrow> dv \<noteq> []"
    using reference_distributions_nonempty assms(2) by blast
  from compute_plan_score_bounds[OF w d assms(3)] show ?thesis .
qed

lemma ex_key_str:
  "constraint_key_to_str ex_builtins
     (constraint_key ex_builtins (PStr ''cord'') (PStr ''dmax'') (Some ''<='') (Some 45) None
        None (Some 2))
   = ex_key"
  by (simp add: constraint_key_to_str_def constraint_key_def ex_builtins_def ex_key_def
      normalize_text_def is_str_def the_str_def
      py_split_def py_strip_def py_lower_def is_space_def lower_char_def)

lemma ex_context:
  "build_constraint_context ex_builtins ex_constraints =
     Inr ([(ex_key, ex_meta)], [(''cord'', PStr ''cord'')], [ex_key \<mapsto> ''lower''],
          [ex_key \<mapsto> 1 / 2])"
  by (simp add: build_constraint_context_def build_constraint_lookup_def
      build_protocol_structure_map_def ex_constraints_def ex_constraint_def ex_key_str
      ex_meta_def ex_meta_of_def normalize_text_def is_str_def the_str_def
      direction_from_operator_def LOWER_BETTER_OPS_def float_of_int_def py_div_def
      py_split_def py_strip_def py_lower_def is_space_def lower_char_def)

theorem plan_score_in_unit_interval_witness:
  "build_constraint_context ex_builtins ex_constraints =
     Inr ([(ex_key, ex_meta)], [(''cord'', PStr ''cord'')], [ex_key \<mapsto> ''lower''],
          [ex_key \<mapsto> 1 / 2]) \<and>
   compute_plan_score [(ex_key, 20)]
     (distributions (build_reference_from_plan_constraints [ex_row 10, ex_row 30, ex_row 20]
        [(ex_key, ex_meta)] [ex_key \<mapsto> ''lower''] [ex_key \<mapsto> 1 / 2]))
     [ex_key \<mapsto> ''lower''] [ex_key \<mapsto> 1 / 2] = Some (Fl (1 / 2)) \<and>
   (\<exists>x. Fl (1 / 2) = Fl x \<and> 0 \<le> x \<and> x \<le> 1)"
proof -
  let ?ref = "build_reference_from_plan_constraints [ex_row 10, ex_row 30, ex_row 20]
                [(ex_key, ex_meta)] [ex_key \<mapsto> ''lower''] [ex_key \<mapsto> 1 / 2]"
  have sc: "compute_plan_score [(ex_key, 20)] (distributions ?ref)
              [ex_key \<mapsto> ''lower''] [ex_key \<mapsto> 1 / 2] = Some (Fl (1 / 2))"
    by (simp add: compute_plan_score_def build_reference_from_plan_constraints_def ex_row_def
        compute_percentile_def searchsorted_right_def searchsorted_loop.simps Let_def)
  have sc': "compute_plan_score [(ex_key, 20)] (distributions ?ref) (directions ?ref)
               (weights ?ref) = Some (Fl (1 / 2))"
    using sc by (simp add: build_reference_from_plan_constraints_def)
  from plan_score_in_unit_interval[OF ex_context refl sc']
  have c: "\<exists>x. Fl (1 / 2) = Fl x \<and> 0 \<le> x \<and> x \<le> 1" .
  show ?thesis by (rule conjI[OF ex_context conjI[OF sc c]])
qed

text \<open>
  C3. A plan whose constraint vector shares no key with the distributions of the
  reference, and more generally any plan whose usable weight over the overlapping
  constraints is zero, is scored as absent (\<open>None\<close>), not as the number 0.
\<close>

theorem zero_overlap_scores_absent:
  "(fst ` set plan \<inter> dom D = {} \<longrightarrow> compute_plan_score plan D R W = None) \<and>
   (usable_weight plan D R W = 0 \<longrightarrow>
      compute_plan_score plan D R W = None \<and> compute_plan_score plan D R W \<noteq> Some (Fl 0))"
proof (intro conjI impI)
  assume "fst ` set plan \<inter> dom D = {}"
  then have "usable_weight plan D R W = 0" by (rule usable_weight_no_overlap)
  then show "compute_plan_score plan D R W = None" by (rule compute_plan_score_zero_weight)
next
  assume z: "usable_weight plan D R W = 0"
  then show "compute_plan_score plan D R W = None" by (rule compute_plan_score_zero_weight)
  then show "compute_plan_score plan D R W \<noteq> Some (Fl 0)" by simp
qed

theorem zero_overlap_scores_absent_witness:
  "fst ` set [(''a'', 1 :: real)] \<inter> dom [''b'' \<mapsto> [1 :: real]] = {} \<and>
   compute_plan_score [(''a'', 1)] [''b'' \<mapsto> [1]] [''b'' \<mapsto> ''lower''] [''b'' \<mapsto> 1] = None \<and>
   usable_weight [(''a'', 1)] [''a'' \<mapsto> [1]] [''a'' \<mapsto> ''lower''] Map.empty = 0 \<and>
   compute_plan_score [(''a'', 1)] [''a'' \<mapsto> [1]] [''a'' \<mapsto> ''lower''] Map.empty = None \<and>
   compute_plan_score [(''a'', 1)] [''a'' \<mapsto> [1]] [''a'' \<mapsto> ''lower''] Map.empty
     \<noteq> Some (Fl 0)"
proof -
  have h1: "fst ` set [(''a'', 1 :: real)] \<inter> dom [''b'' \<mapsto> [1 :: real]] = {}"
    by simp
  have h2: "usable_weight [(''a'', 1)] [''a'' \<mapsto> [1]] [''a'' \<mapsto> ''lower''] Map.empty = 0"
    by (simp add: usable_weight_def)
  note c1 = zero_overlap_scores_absent[of "[(''a'', 1)]" "[''b'' \<mapsto> [1]]"
              "[''b'' \<mapsto> ''lower'']" "[''b'' \<mapsto> 1]", THEN conjunct1, rule_format, OF h1]
  note c2 = zero_overlap_scores_absent[of "[(''a'', 1)]" "[''a'' \<mapsto> [1]]"
              "[''a'' \<mapsto> ''lower'']" Map.empty, THEN conjunct2, rule_format, OF h2]
  show ?thesis by (rule conjI[OF h1 conjI[OF c1 conjI[OF h2 c2]]])
qed

section \<open>Properties of the normaliser\<close>

lemma is_space_lower_char: "is_space (lower_char c) = is_space c"
proof (cases "65 \<le> (of_char c :: nat) \<and> (of_char c :: nat) \<le> 90")
  case True
  then have "(of_char c + 32 :: nat) mod 256 = of_char c + 32" by simp
  then have "(of_char (char_of (of_char c + 32 :: nat)) :: nat) = of_char c + 32"
    by (simp only: of_char_of)
  with True show ?thesis by (auto simp: is_space_def lower_char_def Let_def)
next
  case False
  then show ?thesis by (auto simp: lower_char_def Let_def)
qed

lemma py_join_Cons: "ys \<noteq> [] \<Longrightarrow> py_join sep (x # ys) = x @ sep @ py_join sep ys"
  by (cases ys) simp_all

lemma collapse_ws_eq_Nil: "collapse_ws t = [] \<longleftrightarrow> t = []"
  by (cases t) simp_all

lemma last_dropWhile:
  assumes "xs \<noteq> []" "\<not> P (last xs)"
  shows "dropWhile P xs \<noteq> [] \<and> last (dropWhile P xs) = last xs"
  using assms by (induction xs) (auto split: if_splits)

lemma join_split_collapse_gen:
  assumes "sep = is_space"
    and "cur \<noteq> [] \<or> (t \<noteq> [] \<and> \<not> is_space (hd t))"
    and "t = [] \<or> \<not> is_space (last t)"
  shows "py_join '' '' (filter (\<lambda>w. w \<noteq> []) (split_runs sep cur t)) = rev cur @ collapse_ws t"
  using assms
proof (induction sep cur t rule: split_runs.induct)
  case (1 sep cur)
  then show ?case by simp
next
  case (2 sep cur c cs)
  note sep = "2.prems"(1)
  show ?case
  proof (cases "is_space c")
    case False
    then have ns: "\<not> sep c" by (simp add: sep)
    have e: "cs = [] \<or> \<not> is_space (last cs)" using "2.prems"(3) by (auto split: if_splits)
    have "py_join '' '' (filter (\<lambda>w. w \<noteq> []) (split_runs sep (c # cur) cs))
            = rev (c # cur) @ collapse_ws cs"
      by (rule "2.IH"(2)[OF ns sep _ e]) simp
    with False ns show ?thesis by simp
  next
    case True
    then have sc: "sep c" by (simp add: sep)
    from True "2.prems"(2) have cur: "cur \<noteq> []" by simp
    from True "2.prems"(3) have cs: "cs \<noteq> []" "\<not> is_space (last cs)"
      by (auto split: if_splits)
    let ?cs' = "dropWhile is_space cs"
    have ld: "?cs' \<noteq> [] \<and> last ?cs' = last cs" using cs by (rule last_dropWhile)
    then have d1: "?cs' \<noteq> []" and d2: "last ?cs' = last cs" by (rule conjunct1, rule conjunct2)
    have d3: "\<not> is_space (last ?cs')" unfolding d2 by (rule cs(2))
    note d = d1 d3
    have h: "\<not> is_space (hd ?cs')" using d(1) by (rule hd_dropWhile)
    have ih: "py_join '' '' (filter (\<lambda>w. w \<noteq> []) (split_runs sep [] (dropWhile sep cs)))
                = rev [] @ collapse_ws (dropWhile sep cs)"
      by (rule "2.IH"(1)[OF sc sep]) (use d h sep in simp_all)
    then have ih': "py_join '' '' (filter (\<lambda>w. w \<noteq> []) (split_runs sep [] ?cs'))
                = collapse_ws ?cs'"
      by (simp add: sep)
    have "collapse_ws ?cs' \<noteq> []" using d(1) by (simp add: collapse_ws_eq_Nil)
    with ih' have ne: "filter (\<lambda>w. w \<noteq> []) (split_runs sep [] ?cs') \<noteq> []" by auto
    have "py_join '' '' (filter (\<lambda>w. w \<noteq> []) (split_runs sep cur (c # cs)))
            = py_join '' '' (rev cur # filter (\<lambda>w. w \<noteq> []) (split_runs sep [] ?cs'))"
      using sc cur by (simp add: sep)
    also have "\<dots> = rev cur @ '' '' @ collapse_ws ?cs'"
      using py_join_Cons[OF ne] ih' by simp
    finally show ?thesis using True by simp
  qed
qed

lemma join_split_collapse:
  assumes "t \<noteq> []" "\<not> is_space (hd t)" "\<not> is_space (last t)"
  shows "py_join '' '' (py_split t) = collapse_ws t"
  using join_split_collapse_gen[of is_space "[]" t] assms by (simp add: py_split_def)

lemma py_strip_ends:
  "py_strip s = [] \<or> (\<not> is_space (hd (py_strip s)) \<and> \<not> is_space (last (py_strip s)))"
proof (cases "py_strip s = []")
  case True
  then show ?thesis by simp
next
  case False
  let ?u = "dropWhile is_space s"
  let ?d = "dropWhile is_space (rev ?u)"
  have r: "py_strip s = rev ?d" by (simp add: py_strip_def)
  with False have dne: "?d \<noteq> []" by simp
  have l: "\<not> is_space (last (py_strip s))"
    using hd_dropWhile[OF dne] dne by (simp add: r last_rev)
  have "rev (takeWhile is_space (rev ?u) @ ?d) = ?u"
    by (simp only: takeWhile_dropWhile_id rev_rev_ident)
  then have u: "?u = rev ?d @ rev (takeWhile is_space (rev ?u))"
    by (simp only: rev_append)
  have "hd ?u = hd (rev ?d)"
    by (subst u) (use dne in simp)
  moreover have "?u \<noteq> []"
  proof
    assume a: "?u = []"
    have "?d = dropWhile is_space (rev [])" by (subst a) (rule refl)
    then have "?d = []" by simp
    then show False by (rule notE[OF dne])
  qed
  then have "\<not> is_space (hd ?u)" by (rule hd_dropWhile)
  ultimately have "\<not> is_space (hd (py_strip s))" by (simp add: r)
  with l show ?thesis by simp
qed

lemma py_lower_ends:
  assumes "t = [] \<or> (\<not> is_space (hd t) \<and> \<not> is_space (last t))"
  shows "py_lower t = [] \<or> (\<not> is_space (hd (py_lower t)) \<and> \<not> is_space (last (py_lower t)))"
  using assms by (auto simp: py_lower_def hd_map last_map is_space_lower_char)

lemma normalize_canonical:
  "py_join '' '' (py_split (py_lower (py_strip s))) = canonical_text s"
proof -
  let ?t = "py_lower (py_strip s)"
  have e: "?t = [] \<or> (\<not> is_space (hd ?t) \<and> \<not> is_space (last ?t))"
    by (rule py_lower_ends[OF py_strip_ends])
  have "py_join '' '' (py_split ?t) = collapse_ws ?t"
  proof (cases "?t = []")
    case True
    then show ?thesis by (simp add: py_split_def)
  next
    case False
    with e show ?thesis by (intro join_split_collapse) simp_all
  qed
  then show ?thesis by (simp add: canonical_text_def)
qed

lemma normalize_text_Some: "normalize_text B (PStr s) = Some (canonical_text s)"
  by (simp add: normalize_text_def is_str_def the_str_def normalize_canonical)

lemma normalize_text_value:
  "normalize_text B v = (if v = PNone then None else Some (canonical_text (text_of B v)))"
  by (cases v) (simp_all add: normalize_text_def is_str_def the_str_def text_of_def
      normalize_canonical)

text \<open>
  C9, as the code has it. On a text, \<open>normalize_text\<close> returns the canonical form:
  the trimmed, lower-cased text with every whitespace run collapsed to one space. That
  form is a string also when it is empty. The result is absent only for a missing
  (\<open>None\<close>) input.
\<close>

theorem normalize_text_canonical:
  "normalize_text B PNone = None \<and>
   normalize_text B (PStr s) = Some (canonical_text s) \<and>
   normalize_text B (PStr s) \<noteq> None"
  unfolding normalize_text_Some by (simp add: normalize_text_def)

text \<open>The empty string is normalised to the empty string, which is not an absent value.\<close>

theorem normalize_text_empty_counterexample:
  "normalize_text ex_builtins (PStr '''') = Some '''' \<and>
   normalize_text ex_builtins (PStr '''') \<noteq> None"
  by (simp add: normalize_text_def is_str_def the_str_def py_split_def py_strip_def py_lower_def)

lemma parse_numeric_cases:
  "parse_numeric B PNone = Inr None"
  "parse_numeric B (PBool b) = Inr None"
  "\<bar>i\<bar> < 2 ^ 1024 - 2 ^ 970 \<Longrightarrow> parse_numeric B (PInt i) = Inr (Some (real_of_int i))"
  "parse_numeric B (PFloat x) = Inr (Some x)"
  "py_strip s = [] \<Longrightarrow> parse_numeric B (PStr s) = Inr None"
  "py_strip s \<noteq> [] \<Longrightarrow> parse_numeric B (PStr s) = Inr (float_of_str B (py_strip s))"
  "parse_numeric B (PList xs) = Inr None"
  "parse_numeric B (PDict kvs) = Inr None"
  by (simp_all add: float_of_int_def Let_def)


section \<open>Properties of the structure resolver\<close>

lemma overlap_ratio_nonneg: "0 \<le> overlap_ratio r c"
  by (simp add: overlap_ratio_def)

lemma overlap_ratio_empty_target: "str_tokens c = [] \<Longrightarrow> overlap_ratio r c = 0"
  by (simp add: overlap_ratio_def)

lemma best_ratio_single: "best_ratio r [c] = overlap_ratio r c"
  by (simp add: best_ratio_def)

lemma best_ratio_Cons:
  "cs \<noteq> [] \<Longrightarrow> best_ratio r (c # cs) = max (overlap_ratio r c) (best_ratio r cs)"
  by (simp add: best_ratio_def)

lemma best_ratio_attained:
  assumes "cs \<noteq> []"
  shows "\<exists>c. find (\<lambda>c. overlap_ratio r c = best_ratio r cs) cs = Some c"
proof -
  have "best_ratio r cs \<in> set (map (overlap_ratio r) cs)"
    unfolding best_ratio_def using assms by (intro Max_in) simp_all
  then show ?thesis
    by (cases "find (\<lambda>c. overlap_ratio r c = best_ratio r cs) cs") (auto simp: find_None_iff)
qed

lemma tokenize_str: "tokenize (PStr c) = Inr (str_tokens c)"
  by (simp add: tokenize_def is_str_def the_str_def)

lemma tokenize_non_str: "\<not> is_str v \<Longrightarrow> tokenize v = Inl AttributeError"
  by (simp add: tokenize_def)

lemma the_str_PStr: "the_str (PStr s) = s"
  by (simp add: the_str_def)

lemma is_str_PStr: "is_str v \<Longrightarrow> v = PStr (the_str v)"
  by (cases v) (simp_all add: is_str_def the_str_def)

lemma candidate_names_Cons:
  "candidate_names ((n, PStr c) # items) = c # candidate_names items"
  by (simp add: candidate_names_def the_str_PStr)

lemma candidate_names_Nil: "(candidate_names items = []) = (items = [])"
  by (simp add: candidate_names_def)

lemma fuzzy_loop_Cons:
  assumes "0 \<le> bs"
  shows "fuzzy_loop (set (str_tokens r)) ((n, PStr c) # rest) bm bs =
           (if overlap_ratio r c > bs
            then fuzzy_loop (set (str_tokens r)) rest (PStr c) (overlap_ratio r c)
            else fuzzy_loop (set (str_tokens r)) rest bm bs)"
proof (cases "str_tokens c = []")
  case True
  then have "overlap_ratio r c = 0" by (rule overlap_ratio_empty_target)
  with True assms show ?thesis by (simp add: tokenize_str)
next
  case False
  have "real (max (card (set (str_tokens r))) (card (set (str_tokens c)))) \<noteq> 0"
    using False by simp
  then have "py_div (real (card (set (str_tokens r) \<inter> set (str_tokens c))))
               (real (max (card (set (str_tokens r))) (card (set (str_tokens c)))))
             = Inr (overlap_ratio r c)"
    unfolding py_div_def overlap_ratio_def by (simp only: if_False)
  with False show ?thesis by (simp add: tokenize_str Let_def)
qed

lemma fuzzy_loop_best:
  assumes "list_all is_str (map snd items)" "0 \<le> bs"
  shows "fuzzy_loop (set (str_tokens r)) items bm bs =
           Inr (if items = [] \<or> best_ratio r (candidate_names items) \<le> bs
                then (bm, bs)
                else (case find (\<lambda>c. overlap_ratio r c = best_ratio r (candidate_names items))
                             (candidate_names items) of
                        None \<Rightarrow> PNone
                      | Some c \<Rightarrow> PStr c,
                      best_ratio r (candidate_names items)))"
  using assms
proof (induction items arbitrary: bm bs)
  case Nil
  show ?case by simp
next
  case (Cons item items)
  obtain n v where item0: "item = (n, v)" by (cases item)
  from Cons.prems(1) have "is_str v" and strs: "list_all is_str (map snd items)"
    by (simp_all add: item0)
  then obtain c where v: "v = PStr c" "the_str v = c"
    using is_str_PStr by blast
  have item: "item = (n, PStr c)" by (simp add: item0 v)
  let ?f = "overlap_ratio r"
  let ?cs = "candidate_names items"
  let ?M = "best_ratio r ?cs"
  let ?M' = "best_ratio r (c # ?cs)"
  have M': "?M' = (if items = [] then ?f c else max (?f c) ?M)"
    using candidate_names_Nil[of items] by (auto simp: best_ratio_single best_ratio_Cons)
  show ?case
  proof (cases "?f c > bs")
    case True
    then have nb: "0 \<le> ?f c" using Cons.prems(2) by simp
    have step: "fuzzy_loop (set (str_tokens r)) (item # items) bm bs =
                  fuzzy_loop (set (str_tokens r)) items (PStr c) (?f c)"
      using fuzzy_loop_Cons[OF Cons.prems(2)] True by (simp add: item)
    show ?thesis
    proof (cases "items = [] \<or> ?M \<le> ?f c")
      case a: True
      then have "?M' = ?f c" using M' by (auto simp: max_def)
      with a True show ?thesis
        unfolding step Cons.IH[OF strs nb] by (simp add: item candidate_names_Cons)
    next
      case b: False
      then have "?M' = ?M" "?f c \<noteq> ?M" "\<not> ?M \<le> bs" using M' True by (auto simp: max_def)
      with b show ?thesis
        unfolding step Cons.IH[OF strs nb] by (simp add: item candidate_names_Cons)
    qed
  next
    case False
    have step: "fuzzy_loop (set (str_tokens r)) (item # items) bm bs =
                  fuzzy_loop (set (str_tokens r)) items bm bs"
      using fuzzy_loop_Cons[OF Cons.prems(2)] False by (simp add: item)
    show ?thesis
    proof (cases "items = [] \<or> ?M \<le> bs")
      case a: True
      then have "?M' \<le> bs" using M' False by (auto simp: max_def)
      with a show ?thesis
        unfolding step Cons.IH[OF strs Cons.prems(2)] by (simp add: item candidate_names_Cons)
    next
      case b: False
      then have "?M' = ?M" "?f c \<noteq> ?M" "\<not> ?M' \<le> bs" using M' False by (auto simp: max_def)
      with b show ?thesis
        unfolding step Cons.IH[OF strs Cons.prems(2)] by (simp add: item candidate_names_Cons)
    qed
  qed
qed

lemma fuzzy_loop_non_str:
  assumes "\<not> list_all is_str (map snd items)" "0 \<le> bs"
  shows "fuzzy_loop (set (str_tokens r)) items bm bs = Inl AttributeError"
  using assms
proof (induction items arbitrary: bm bs)
  case Nil
  then show ?case by simp
next
  case (Cons item items)
  obtain n v where item: "item = (n, v)" by (cases item)
  show ?case
  proof (cases "is_str v")
    case False
    then show ?thesis by (simp add: item tokenize_non_str)
  next
    case True
    then obtain c where v: "v = PStr c" using is_str_PStr by blast
    from Cons.prems(1) True have rest: "\<not> list_all is_str (map snd items)"
      by (simp add: item)
    show ?thesis
    proof (cases "overlap_ratio r c > bs")
      case gt: True
      then have "0 \<le> overlap_ratio r c" using Cons.prems(2) by simp
      from Cons.IH[OF rest this] gt show ?thesis
        using fuzzy_loop_Cons[OF Cons.prems(2)] by (simp add: item v)
    next
      case le: False
      from Cons.IH[OF rest Cons.prems(2)] le show ?thesis
        using fuzzy_loop_Cons[OF Cons.prems(2)] by (simp add: item v)
    qed
  qed
qed

lemma find_positive_nonempty:
  assumes "find (\<lambda>c. overlap_ratio r c = m) cs = Some c" "0 < m"
  shows "c \<noteq> []"
proof
  assume "c = []"
  then have "str_tokens c = []" by (simp add: str_tokens_def py_lower_def)
  then have "overlap_ratio r c = 0" by (rule overlap_ratio_empty_target)
  moreover from assms(1) have "overlap_ratio r c = m" by (auto simp: find_Some_iff)
  ultimately show False using assms(2) by simp
qed

lemma fuzzy_step:
  assumes "list_all is_str (map snd vocabulary)"
  shows "(case fuzzy_loop (set (str_tokens r)) vocabulary PNone 0 of
            Inl e \<Rightarrow> Inl e
          | Inr (best_match, best_score) \<Rightarrow>
              if py_truthy best_match \<and> best_score > 0 then Inr best_match else Inr PNone)
         = (case fuzzy_choice r (candidate_names vocabulary) of
              None \<Rightarrow> Inr PNone
            | Some c \<Rightarrow> Inr (PStr c))"
proof (cases "vocabulary = [] \<or> best_ratio r (candidate_names vocabulary) \<le> 0")
  case True
  then show ?thesis
    unfolding fuzzy_loop_best[OF assms order_refl]
    by (auto simp: fuzzy_choice_def candidate_names_Nil)
next
  case False
  let ?cs = "candidate_names vocabulary"
  let ?M = "best_ratio r ?cs"
  from False have pos: "0 < ?M" and ne: "?cs \<noteq> []"
    by (auto simp: candidate_names_Nil)
  from best_ratio_attained[OF ne]
  obtain c where f: "find (\<lambda>c. overlap_ratio r c = ?M) ?cs = Some c"
    by blast
  from f pos have "c \<noteq> []" by (rule find_positive_nonempty)
  with f show ?thesis
    using False pos unfolding fuzzy_loop_best[OF assms order_refl]
    by (simp add: fuzzy_choice_def candidate_names_Nil)
qed

text \<open>
  The resolver does what the resolution says on every input, the raised errors included.
\<close>

lemma resolve_structure_resolution:
  "resolve_structure B raw_name alias_map vocabulary = resolution B raw_name alias_map vocabulary"
proof (cases "py_truthy raw_name")
  case False
  then show ?thesis by (simp add: resolve_structure_def resolution_def)
next
  case t: True
  then have nn: "raw_name \<noteq> PNone" by auto
  let ?text = "canonical_text (text_of B raw_name)"
  have norm: "normalize_text B raw_name = Some ?text"
    using nn by (simp add: normalize_text_value)
  show ?thesis
  proof (cases "?text = [] \<or> py_truthy (map_get alias_map ?text) \<or>
                py_truthy (map_get (map_of vocabulary) ?text)")
    case True
    with t norm show ?thesis
      by (auto simp: resolve_structure_def resolution_def Let_def dict_get_def)
  next
    case False
    then have early: "?text \<noteq> []" "\<not> py_truthy (map_get alias_map ?text)"
      "\<not> py_truthy (map_get (map_of vocabulary) ?text)"
      by simp_all
    have lhs: "resolve_structure B raw_name alias_map vocabulary =
                 (case tokenize raw_name of
                    Inl e \<Rightarrow> Inl e
                  | Inr tokens \<Rightarrow>
                      if set tokens = {} then Inr PNone
                      else
                        (case fuzzy_loop (set tokens) vocabulary PNone 0 of
                           Inl e \<Rightarrow> Inl e
                         | Inr (best_match, best_score) \<Rightarrow>
                             if py_truthy best_match \<and> best_score > 0 then Inr best_match
                             else Inr PNone))"
      unfolding resolve_structure_def Let_def dict_get_def using t norm early by simp
    have rhs: "resolution B raw_name alias_map vocabulary =
                 (if \<not> is_str raw_name then Inl AttributeError
                  else if str_tokens (the_str raw_name) = [] then Inr PNone
                  else if \<not> list_all is_str (map snd vocabulary) then Inl AttributeError
                  else
                    (case fuzzy_choice (the_str raw_name) (candidate_names vocabulary) of
                       None \<Rightarrow> Inr PNone
                     | Some c \<Rightarrow> Inr (PStr c)))"
      using t early by (simp add: resolution_def Let_def)
    show ?thesis
    proof (cases "is_str raw_name")
      case False
      then show ?thesis unfolding lhs rhs by (simp add: tokenize_non_str)
    next
      case True
      then have tk: "tokenize raw_name = Inr (str_tokens (the_str raw_name))"
        by (simp add: tokenize_def)
      show ?thesis
      proof (cases "str_tokens (the_str raw_name) = []")
        case e: True
        with True show ?thesis unfolding lhs rhs tk by simp
      next
        case ne: False
        show ?thesis
        proof (cases "list_all is_str (map snd vocabulary)")
          case s: True
          from fuzzy_step[OF s, of "the_str raw_name"] True ne s show ?thesis
            unfolding lhs rhs tk by simp
        next
          case ns: False
          from fuzzy_loop_non_str[OF ns order_refl, of "the_str raw_name" PNone] True ne ns
          show ?thesis unfolding lhs rhs tk by simp
        qed
      qed
    qed
  qed
qed

text \<open>
  On a label that is a string and a vocabulary whose canonical names are strings the
  resolver returns a value: the alias entry, else the vocabulary entry, else the first
  candidate with the highest positive overlap ratio, else nothing.
\<close>

lemma resolve_structure_on_strings:
  assumes "list_all is_str (map snd vocabulary)"
  shows "\<exists>v. resolve_structure B (PStr label) alias_map vocabulary = Inr v"
  unfolding resolve_structure_resolution using assms
  by (auto simp: resolution_def Let_def is_str_def split: option.splits)

lemma ex_resolve:
  "resolve_structure ex_builtins (PStr ''Spinal_Cord PRV'') Map.empty ex_vocabulary =
     Inr (PStr ''Spinal Cord'')"
  unfolding ex_vocabulary_def ex_builtins_def by code_simp

lemma ex_structure_map:
  "build_protocol_structure_map ex_builtins
     [\<lparr>c_structure = PInt 5, c_metric_display = PStr ''dmax'', c_priority = PInt 2,
       c_goal_operator = Some ''<='', c_goal_value = Some 45,
       c_variation_operator = None, c_variation_value = None\<rparr>]
   = [(''5'', PInt 5)]"
  unfolding ex_builtins_def by code_simp

text \<open>
  C6. The specification states that \<open>resolve_structure\<close> applies its three steps and
  never raises for any input. The steps are as stated (\<open>resolve_structure_resolution\<close>),
  but the resolver does raise. \<open>normalize_text\<close> turns a label that is not a string
  into one, so the label \<open>5\<close> passes the two look-ups; the fuzzy fallback then calls
  \<open>tokenize\<close> on the label itself, and \<^verbatim>\<open>(5).lower()\<close> raises
  \<^verbatim>\<open>AttributeError\<close>. The same happens for the label \<open>lung\<close> on the vocabulary
  that \<open>build_protocol_structure_map\<close> builds from a constraint whose structure is
  \<open>5\<close>.
\<close>

theorem resolve_structure_raises:
  "resolve_structure ex_builtins (PInt 5) Map.empty [] = Inl AttributeError \<and>
   resolve_structure ex_builtins (PStr ''lung'') Map.empty [(''5'', PInt 5)] = Inl AttributeError"
  unfolding ex_builtins_def by code_simp

section \<open>Properties of the plan constraint extractor\<close>

lemma normalize_operator_field:
  "(case normalize_operator operator of None \<Rightarrow> [] | Some x \<Rightarrow> x) = operator_field operator"
  by (cases operator) (simp_all add: operator_field_def Let_def)

lemma normalize_text_field:
  "(case normalize_text B v of None \<Rightarrow> [] | Some x \<Rightarrow> x) = text_field B v"
  by (simp add: normalize_text_value text_field_def)

lemma key_string_fields:
  "constraint_key_to_str B
     (constraint_key B structure metric_display goal_operator goal_value variation_operator
        variation_value priority) =
   text_field B structure @ ''||'' @ text_field B metric_display @ ''||'' @
   operator_field goal_operator @ ''||'' @ number_field B goal_value @ ''||'' @
   operator_field variation_operator @ ''||'' @ number_field B variation_value @ ''||'' @
   (case priority of None \<Rightarrow> [] | Some i \<Rightarrow> str_of_int B i)"
  unfolding constraint_key_to_str_def constraint_key_def prod.case
    normalize_operator_field normalize_text_field number_field_def
  by simp

text \<open>The key string the loop computes for a record is the constraint key of the record.\<close>

lemma result_key_str_record_key:
  "result_key_str B alias_map vocabulary r = record_key B alias_map vocabulary r"
  unfolding result_key_str_def record_key_def Let_def resolve_structure_resolution
    key_string_fields py_or_def priority_field_def
  by (simp split: sum.splits)

lemma counts_for_code:
  "counts_for B L A P k r =
     (result_key_str B A P r = Inr k \<and> k \<in> fst ` set L \<and>
      (case result_achieved B r of Inr (Some v) \<Rightarrow> True | _ \<Rightarrow> False))"
  by (simp add: counts_for_def result_key_str_record_key result_achieved_def)

lemma first_achieved_skip:
  assumes "\<not> counts_for B L A P k r"
  shows "first_achieved B L A P (r # rs) k = first_achieved B L A P rs k"
  using assms by (simp add: first_achieved_def)

lemma first_achieved_hit:
  assumes "counts_for B L A P k r" "result_achieved B r = Inr a"
  shows "first_achieved B L A P (r # rs) k = a"
  using assms by (simp add: first_achieved_def result_achieved_def)

lemma extract_loop_first:
  assumes "extract_loop B L A P results matched = Inr out"
    and "distinct (map fst matched)"
  shows "distinct (map fst out) \<and>
         (\<forall>k. map_of out k =
                (case map_of matched k of
                   Some v \<Rightarrow> Some v
                 | None \<Rightarrow> first_achieved B L A P results k))"
  using assms
proof (induction results arbitrary: matched)
  case Nil
  then show ?case by (auto simp: first_achieved_def split: option.splits)
next
  case (Cons r rs)
  from Cons.prems(1) obtain ks where ks: "result_key_str B A P r = Inr ks"
    by (cases "result_key_str B A P r") simp_all
  have other: "\<not> counts_for B L A P k r" if "k \<noteq> ks" for k
    using that ks by (simp add: counts_for_code)
  show ?case
  proof (cases "ks \<in> fst ` set L")
    case False
    with Cons.prems(1) ks have run: "extract_loop B L A P rs matched = Inr out" by simp
    have "\<not> counts_for B L A P k r" for k
      using False ks by (auto simp: counts_for_code)
    then have sk: "first_achieved B L A P (r # rs) k = first_achieved B L A P rs k" for k
      by (rule first_achieved_skip)
    show ?thesis unfolding sk by (rule Cons.IH[OF run Cons.prems(2)])
  next
    case inL: True
    from Cons.prems(1) ks inL obtain a where a: "result_achieved B r = Inr a"
      by (cases "result_achieved B r") simp_all
    show ?thesis
    proof (cases a)
      case None
      with Cons.prems(1) ks inL a have run: "extract_loop B L A P rs matched = Inr out" by simp
      have "\<not> counts_for B L A P k r" for k
        using a None by (simp add: counts_for_code)
      then have sk: "first_achieved B L A P (r # rs) k = first_achieved B L A P rs k" for k
        by (rule first_achieved_skip)
      show ?thesis unfolding sk by (rule Cons.IH[OF run Cons.prems(2)])
    next
      case (Some av)
      have hit: "counts_for B L A P ks r" using ks inL a Some by (simp add: counts_for_code)
      have fa: "first_achieved B L A P (r # rs) k =
                  (if k = ks then Some av else first_achieved B L A P rs k)" for k
        using first_achieved_hit[OF hit a] other[of k] first_achieved_skip[of B L A P k r rs] Some
        by auto
      show ?thesis
      proof (cases "ks \<in> fst ` set matched")
        case True
        with Cons.prems(1) ks inL a Some
        have run: "extract_loop B L A P rs matched = Inr out" by simp
        from True obtain v where "map_of matched ks = Some v"
          by (cases "map_of matched ks") (auto simp: map_of_eq_None_iff)
        with Cons.IH[OF run Cons.prems(2)] fa show ?thesis
          by (auto split: option.splits)
      next
        case False
        with Cons.prems(1) ks inL a Some
        have run: "extract_loop B L A P rs (matched @ [(ks, av)]) = Inr out" by simp
        have d: "distinct (map fst (matched @ [(ks, av)]))"
          using Cons.prems(2) False by simp
        have none: "map_of matched ks = None" using False by (simp add: map_of_eq_None_iff)
        have m: "map_of (matched @ [(ks, av)]) k =
                   (case map_of matched k of
                      Some v \<Rightarrow> Some v
                    | None \<Rightarrow> if k = ks then Some av else None)" for k
          by (simp add: map_add_def split: option.splits)
        from Cons.IH[OF run d] have d': "distinct (map fst out)"
          and ih: "\<And>k. map_of out k =
                     (case map_of (matched @ [(ks, av)]) k of
                        Some v \<Rightarrow> Some v
                      | None \<Rightarrow> first_achieved B L A P rs k)"
          by simp_all
        have "map_of out k =
                (case map_of matched k of
                   Some v \<Rightarrow> Some v
                 | None \<Rightarrow> first_achieved B L A P (r # rs) k)" for k
          unfolding ih m fa using none by (auto split: option.splits)
        with d' show ?thesis by simp
      qed
    qed
  qed
qed

text \<open>
  C7. Whenever \<open>extract_plan_constraints\<close> returns a mapping, that mapping holds at
  most one achieved value per constraint key, and the value under a key is the achieved
  value of the first result record that counts for it. A record counts for a key when
  the seven-field constraint key built from the record (resolved structure, metric,
  goal operator and value, variation operator and value, priority) is that key, the key
  is in the constraint index, and the achieved value parses to a number: a record whose
  key is not in the index or whose achieved value is missing or does not parse is
  skipped, and every later record with the same key is ignored.
\<close>

theorem extract_plan_constraints_first_wins:
  assumes "extract_plan_constraints B results L A P = Inr matched"
  shows "distinct (map fst matched) \<and>
         (\<forall>k. map_of matched k =
                first_achieved B L A P (case results of None \<Rightarrow> [] | Some rs \<Rightarrow> rs) k)"
proof (cases results)
  case None
  with assms have "matched = []" by (simp add: extract_plan_constraints_def)
  with None show ?thesis by (simp add: first_achieved_def)
next
  case (Some rs)
  with assms have "extract_loop B L A P rs [] = Inr matched"
    by (simp add: extract_plan_constraints_def)
  from extract_loop_first[OF this] Some show ?thesis by simp
qed

lemma ex_extract:
  "extract_plan_constraints ex_builtins (Some ex_results) ex_index Map.empty ex_structures
     = Inr [(ex_key, 12), (ex_key_lung, 3)]"
  unfolding ex_results_def ex_result_def ex_key_def ex_key_lung_def ex_index_def
    ex_meta_of_def ex_structures_def ex_builtins_def
  by code_simp

lemma ex_record_keys:
  "map (record_key ex_builtins Map.empty ex_structures) ex_results =
     [Inr ex_key, Inr ex_key, Inr ex_key_lung, Inr ''||dmax||<=||45.0||||||2'', Inr ex_key,
      Inr ex_key_lung]"
  unfolding ex_results_def ex_result_def ex_key_def ex_key_lung_def ex_structures_def
    ex_builtins_def
  by code_simp

theorem extract_plan_constraints_first_wins_witness:
  "extract_plan_constraints ex_builtins (Some ex_results) ex_index Map.empty ex_structures
     = Inr [(ex_key, 12), (ex_key_lung, 3)] \<and>
   distinct (map fst [(ex_key, 12 :: real), (ex_key_lung, 3)]) \<and>
   first_achieved ex_builtins ex_index Map.empty ex_structures ex_results ex_key = Some 12 \<and>
   first_achieved ex_builtins ex_index Map.empty ex_structures ex_results ex_key_lung = Some 3 \<and>
   first_achieved ex_builtins ex_index Map.empty ex_structures ex_results
     ''||dmax||<=||45.0||||||2'' = None"
proof -
  from extract_plan_constraints_first_wins[OF ex_extract]
  have d: "distinct (map fst [(ex_key, 12 :: real), (ex_key_lung, 3)])"
    and m: "map_of [(ex_key, 12), (ex_key_lung, 3)] k =
              first_achieved ex_builtins ex_index Map.empty ex_structures ex_results k" for k
    by simp_all
  have ne: "ex_key \<noteq> ex_key_lung" "''||dmax||<=||45.0||||||2'' \<noteq> ex_key"
    "''||dmax||<=||45.0||||||2'' \<noteq> ex_key_lung"
    by (simp_all add: ex_key_def ex_key_lung_def)
  from m[of ex_key] have a: "first_achieved ex_builtins ex_index Map.empty ex_structures
      ex_results ex_key = Some 12"
    by simp
  from m[of ex_key_lung] ne have b: "first_achieved ex_builtins ex_index Map.empty
      ex_structures ex_results ex_key_lung = Some 3"
    by simp
  from m[of "''||dmax||<=||45.0||||||2''"] ne have c: "first_achieved ex_builtins ex_index
      Map.empty ex_structures ex_results ''||dmax||<=||45.0||||||2'' = None"
    by simp
  show ?thesis by (rule conjI[OF ex_extract conjI[OF d conjI[OF a conjI[OF b c]]]])
qed

section \<open>Properties of the stability experiment\<close>

lemma valid_count_eq:
  "length (filter (\<lambda>b. b) (map2 (\<lambda>s f. notna s \<and> notna f) (map g rows) (map h rows)))
     = length (filter (\<lambda>row. notna (h row) \<and> notna (g row)) rows)"
  by (induction rows) auto

lemma valid_count_le:
  "length (filter (\<lambda>b. b) (map2 (\<lambda>s f. notna s \<and> notna f) (map g rows) (map h rows)))
     \<le> length rows"
  unfolding valid_count_eq by (rule length_filter_le)

lemma bootstrap_draw_record:
  assumes "bootstrap_draw protocol train_df test_df L dirs ws min_valid n b (draw n b) = Inr (Some r)"
  shows "draw_ok draw train_df test_df L dirs ws min_valid r"
proof -
  from assms obtain sample_df where s: "iloc train_df (draw n b) = Inr sample_df"
    by (cases "iloc train_df (draw n b)") (simp_all add: bootstrap_draw_def)
  then have sd: "sample_df = map (\<lambda>i. train_df ! i) (draw n b)"
    by (auto simp: iloc_def split: if_splits)
  let ?ref = "build_reference_from_plan_constraints sample_df L dirs ws"
  let ?g = "\<lambda>row. case plan_constraints row of
                     None \<Rightarrow> None
                   | Some pc \<Rightarrow> compute_plan_score pc (distributions ?ref) (directions ?ref) (weights ?ref)"
  let ?vc = "length (filter (\<lambda>b. b)
               (map2 (\<lambda>s f. notna s \<and> notna f) (map ?g test_df) (map plan_score_full test_df)))"
  from assms s have ge: "\<not> int ?vc < min_valid"
    and r: "valid_plans r = ?vc" "test_size r = length test_df" "s_N r = n" "bootstrap_id r = b"
    by (auto simp: bootstrap_draw_def score_plan_constraints_df_def Let_def split: if_splits)
  have le: "?vc \<le> length test_df" by (rule valid_count_le)
  have dw: "directions ?ref = dirs" "weights ?ref = ws"
    by (simp_all add: build_reference_from_plan_constraints_def Let_def)
  have js: "?vc = jointly_scoreable train_df test_df L dirs ws (draw n b)"
    unfolding valid_count_eq jointly_scoreable_def dw unfolding sd by (rule refl)
  from ge le r js show ?thesis by (simp add: draw_ok_def)
qed

lemma bootstrap_ids_loop_records:
  assumes "bootstrap_ids_loop draw protocol train_df test_df L dirs ws min_valid n bs rows0 = Inr rows"
  shows "\<exists>new. rows = rows0 @ new \<and>
           (\<forall>r \<in> set new. draw_ok draw train_df test_df L dirs ws min_valid r)"
  using assms
proof (induction bs arbitrary: rows0)
  case Nil
  then show ?case by simp
next
  case (Cons b bs)
  from Cons.prems obtain res where
    d: "bootstrap_draw protocol train_df test_df L dirs ws min_valid n b (draw n b) = Inr res"
    by (cases "bootstrap_draw protocol train_df test_df L dirs ws min_valid n b (draw n b)")
       simp_all
  show ?case
  proof (cases res)
    case None
    with Cons.prems d have
      "bootstrap_ids_loop draw protocol train_df test_df L dirs ws min_valid n bs rows0 = Inr rows"
      by simp
    from Cons.IH[OF this] show ?thesis .
  next
    case (Some row)
    with Cons.prems d have
      "bootstrap_ids_loop draw protocol train_df test_df L dirs ws min_valid n bs (rows0 @ [row])
         = Inr rows"
      by simp
    from Cons.IH[OF this] obtain new where
      new: "rows = (rows0 @ [row]) @ new"
        "\<forall>r \<in> set new. draw_ok draw train_df test_df L dirs ws min_valid r"
      by blast
    have "draw_ok draw train_df test_df L dirs ws min_valid row"
      using d Some by (intro bootstrap_draw_record) simp
    have row: "draw_ok draw train_df test_df L dirs ws min_valid row" by fact
    show ?thesis
    proof (intro exI conjI)
      show "rows = rows0 @ (row # new)" using new by simp
      show "\<forall>r \<in> set (row # new). draw_ok draw train_df test_df L dirs ws min_valid r"
        using new row by simp
    qed
  qed
qed

lemma bootstrap_loop_records:
  assumes "bootstrap_loop draw protocol train_df test_df L dirs ws min_valid bootstraps sizes rows0
             = Inr rows"
  shows "\<exists>new. rows = rows0 @ new \<and>
           (\<forall>r \<in> set new. draw_ok draw train_df test_df L dirs ws min_valid r)"
  using assms
proof (induction sizes arbitrary: rows0)
  case Nil
  then show ?case by simp
next
  case (Cons n sizes)
  from Cons.prems obtain rows1 where
    a: "bootstrap_ids_loop draw protocol train_df test_df L dirs ws min_valid n [0..<bootstraps]
          rows0 = Inr rows1"
    and b: "bootstrap_loop draw protocol train_df test_df L dirs ws min_valid bootstraps sizes
          rows1 = Inr rows"
    by (cases "bootstrap_ids_loop draw protocol train_df test_df L dirs ws min_valid n
                 [0..<bootstraps] rows0") simp_all
  from bootstrap_ids_loop_records[OF a] obtain new1 where
    n1: "rows1 = rows0 @ new1"
      "\<forall>r \<in> set new1. draw_ok draw train_df test_df L dirs ws min_valid r"
    by blast
  from Cons.IH[OF b] obtain new2 where
    n2: "rows = rows1 @ new2"
      "\<forall>r \<in> set new2. draw_ok draw train_df test_df L dirs ws min_valid r"
    by blast
  show ?case
  proof (intro exI conjI)
    show "rows = rows0 @ (new1 @ new2)" using n1 n2 by simp
    show "\<forall>r \<in> set (new1 @ new2). draw_ok draw train_df test_df L dirs ws min_valid r"
      using n1 n2 by auto
  qed
qed

text \<open>
  C8. Every stability record that the bootstrap loop appends has a number of valid plans
  that is at least \<open>min_valid\<close> and at most the size of the test set, which is the
  record's \<open>test_size\<close>; that number is the number of test plans scoreable under
  both the reference of the record's draw and the full-population reference. So a draw
  with fewer than \<open>min_valid\<close> jointly scoreable plans leaves no record.
\<close>

theorem bootstrap_valid_plans_bounds:
  assumes "bootstrap_loop draw protocol train_df test_df L dirs ws min_valid bootstraps sizes
             raw_rows = Inr rows"
  shows "\<exists>new. rows = raw_rows @ new \<and>
           (\<forall>r \<in> set new.
              min_valid \<le> int (valid_plans r) \<and> valid_plans r \<le> test_size r \<and>
              test_size r = length test_df \<and>
              valid_plans r =
                jointly_scoreable train_df test_df L dirs ws (draw (s_N r) (bootstrap_id r))) \<and>
           (\<forall>n b. int (jointly_scoreable train_df test_df L dirs ws (draw n b)) < min_valid \<longrightarrow>
              (\<forall>r \<in> set new. \<not> (s_N r = n \<and> bootstrap_id r = b)))"
proof -
  from bootstrap_loop_records[OF assms] obtain new where
    new: "rows = raw_rows @ new"
      "\<forall>r \<in> set new. draw_ok draw train_df test_df L dirs ws min_valid r"
    by blast
  show ?thesis
  proof (intro exI conjI)
    show "rows = raw_rows @ new" by (rule new(1))
    show "\<forall>r \<in> set new.
              min_valid \<le> int (valid_plans r) \<and> valid_plans r \<le> test_size r \<and>
              test_size r = length test_df \<and>
              valid_plans r =
                jointly_scoreable train_df test_df L dirs ws (draw (s_N r) (bootstrap_id r))"
      using new(2) unfolding draw_ok_def .
    show "\<forall>n b. int (jointly_scoreable train_df test_df L dirs ws (draw n b)) < min_valid \<longrightarrow>
              (\<forall>r \<in> set new. \<not> (s_N r = n \<and> bootstrap_id r = b))"
    proof (intro allI impI ballI)
      fix n b r
      assume lt: "int (jointly_scoreable train_df test_df L dirs ws (draw n b)) < min_valid"
        and r: "r \<in> set new"
      from new(2) r have ok: "draw_ok draw train_df test_df L dirs ws min_valid r" by blast
      show "\<not> (s_N r = n \<and> bootstrap_id r = b)"
      proof
        assume "s_N r = n \<and> bootstrap_id r = b"
        with ok have "min_valid \<le> int (jointly_scoreable train_df test_df L dirs ws (draw n b))"
          unfolding draw_ok_def by force
        with lt show False by linarith
      qed
    qed
  qed
qed

lemma ex_bootstrap:
  "bootstrap_loop (\<lambda>n b. [0, 1]) ''p'' [ex_row 10, ex_row 30] [ex_test_row]
     [(ex_key, ex_meta)] [ex_key \<mapsto> ''lower''] [ex_key \<mapsto> 1 / 2] 1 1 [2] []
   = Inr [ex_stability_record]"
  unfolding ex_row_def ex_test_row_def ex_key_def ex_meta_def ex_meta_of_def
    ex_stability_record_def
  by code_simp

theorem bootstrap_valid_plans_bounds_witness:
  "bootstrap_loop (\<lambda>n b. [0, 1]) ''p'' [ex_row 10, ex_row 30] [ex_test_row]
     [(ex_key, ex_meta)] [ex_key \<mapsto> ''lower''] [ex_key \<mapsto> 1 / 2] 1 1 [2] []
   = Inr [ex_stability_record] \<and>
   (1 :: int) \<le> int (valid_plans ex_stability_record) \<and>
   valid_plans ex_stability_record \<le> test_size ex_stability_record \<and>
   test_size ex_stability_record = length [ex_test_row] \<and>
   valid_plans ex_stability_record =
     jointly_scoreable [ex_row 10, ex_row 30] [ex_test_row] [(ex_key, ex_meta)]
       [ex_key \<mapsto> ''lower''] [ex_key \<mapsto> 1 / 2] [0, 1]"
proof -
  from bootstrap_valid_plans_bounds[OF ex_bootstrap] obtain new where
    new: "[ex_stability_record] = [] @ new"
      "\<forall>r \<in> set new.
          (1 :: int) \<le> int (valid_plans r) \<and> valid_plans r \<le> test_size r \<and>
          test_size r = length [ex_test_row] \<and>
          valid_plans r =
            jointly_scoreable [ex_row 10, ex_row 30] [ex_test_row] [(ex_key, ex_meta)]
              [ex_key \<mapsto> ''lower''] [ex_key \<mapsto> 1 / 2] [0, 1]"
    by blast
  from new(1) have "new = [ex_stability_record]" by simp
  then have "ex_stability_record \<in> set new" by simp
  with new(2) ex_bootstrap show ?thesis by blast
qed

subsection \<open>The plateau estimate\<close>

lemma zip_predictions: "zip ns (map f ns) = map (\<lambda>n. (n, f n)) ns"
  by (induction ns) simp_all

lemma find_sort_key_least:
  assumes "find P (sort_key fst xs) = Some (n, p)"
  shows "(n, p) \<in> set xs \<and> P (n, p) \<and> (\<forall>(m, q) \<in> set xs. P (m, q) \<longrightarrow> n \<le> m)"
proof -
  let ?ys = "sort_key fst xs"
  from assms obtain i where i: "i < length ?ys" "P (?ys ! i)" "(n, p) = ?ys ! i"
    "\<forall>j<i. \<not> P (?ys ! j)"
    by (auto simp: find_Some_iff)
  have srt: "sorted (map fst ?ys)" by (rule sorted_sort_key)
  have mem: "(n, p) \<in> set xs" using i(1,3) by (metis nth_mem set_sort)
  have fi: "fst (?ys ! i) = n" using i(3) by (metis fst_conv)
  have least: "n \<le> m" if "(m, q) \<in> set xs" "P (m, q)" for m q
  proof -
    from that(1) have "(m, q) \<in> set ?ys" by simp
    then obtain j where j: "j < length ?ys" "?ys ! j = (m, q)" by (metis in_set_conv_nth)
    with that(2) i(4) have ij: "i \<le> j" by (metis not_le_imp_less)
    have fj: "fst (?ys ! j) = m" using j(2) by (metis fst_conv)
    have "j < length (map fst ?ys)" using j(1) by (simp only: length_map)
    with srt ij have "map fst ?ys ! i \<le> map fst ?ys ! j" by (rule sorted_nth_mono)
    moreover have "map fst ?ys ! i = fst (?ys ! i)" using i(1) by (rule nth_map)
    moreover have "map fst ?ys ! j = fst (?ys ! j)" using j(1) by (rule nth_map)
    ultimately show ?thesis by (simp only: fi fj)
  qed
  have "P (n, p)" using i(2,3) by (simp only:)
  with mem least show ?thesis by blast
qed

lemma estimate_n_star_general:
  assumes ne: "n_values \<noteq> []"
    and f: "f = (\<lambda>n. intercept + slope / sqrt n)"
    and target: "target = intercept + plateau_fraction * (Max (set (map f n_values)) - intercept)"
  shows "estimate_n_star n_values intercept slope plateau_fraction =
           Inr (py_trunc
                 (if \<exists>n \<in> set n_values. f n \<le> target
                  then Min {n \<in> set n_values. f n \<le> target}
                  else last n_values))"
proof -
  let ?P = "\<lambda>(n_value :: real, pred :: real). pred \<le> target"
  let ?xs = "zip n_values (map f n_values)"
  have xs: "?xs = map (\<lambda>n. (n, f n)) n_values" by (rule zip_predictions)
  have unfold: "estimate_n_star n_values intercept slope plateau_fraction =
      (case find ?P (sort_key fst ?xs) of
         Some (n_value, pred) \<Rightarrow> Inr (py_trunc n_value)
       | None \<Rightarrow> Inr (py_trunc (last n_values)))"
    unfolding target unfolding f estimate_n_star_def Let_def using ne by simp
  show ?thesis
  proof (cases "find ?P (sort_key fst ?xs)")
    case None
    then have nn: "\<not> (\<exists>x. x \<in> set (sort_key fst ?xs) \<and> ?P x)"
      unfolding find_None_iff .
    have no: "\<not> (\<exists>n \<in> set n_values. f n \<le> target)"
    proof
      assume "\<exists>n \<in> set n_values. f n \<le> target"
      then obtain n where n: "n \<in> set n_values" "f n \<le> target" by blast
      from n(1) have "(n, f n) \<in> set ?xs" unfolding xs by auto
      then have "(n, f n) \<in> set (sort_key fst ?xs)" by simp
      moreover have "?P (n, f n)" using n(2) by simp
      ultimately show False using nn by blast
    qed
    have "estimate_n_star n_values intercept slope plateau_fraction =
            Inr (py_trunc (last n_values))"
      unfolding unfold None by simp
    then show ?thesis unfolding if_not_P[OF no] .
  next
    case (Some np)
    obtain n p where np: "np = (n, p)" by (cases np)
    from find_sort_key_least[OF Some[unfolded np]]
    have mem: "(n, p) \<in> set ?xs" and P: "p \<le> target"
      and least: "\<forall>(m, q) \<in> set ?xs. q \<le> target \<longrightarrow> n \<le> m"
      by auto
    from mem have n: "n \<in> set n_values" "p = f n" unfolding xs by auto
    have l: "n \<le> m" if "m \<in> set n_values" "f m \<le> target" for m
    proof -
      from that(1) have "(m, f m) \<in> set ?xs" unfolding xs by auto
      with least that(2) show ?thesis by auto
    qed
    have m_eq: "Min {m \<in> set n_values. f m \<le> target} = n"
    proof (rule Min_eqI)
      show "finite {m \<in> set n_values. f m \<le> target}" by simp
      show "n \<le> y" if "y \<in> {m \<in> set n_values. f m \<le> target}" for y
        using that l by simp
      show "n \<in> {m \<in> set n_values. f m \<le> target}" using n P by simp
    qed
    have ex: "\<exists>m \<in> set n_values. f m \<le> target" using n P by auto
    have "estimate_n_star n_values intercept slope plateau_fraction = Inr (py_trunc n)"
      unfolding unfold Some np by simp
    then show ?thesis unfolding if_P[OF ex] m_eq .
  qed
qed

lemma prediction_bounds:
  assumes "9 \<le> n" "n \<le> 100"
  shows "14 / 100 \<le> 1 / 10 + (2 / 5) / sqrt n \<and> 1 / 10 + (2 / 5) / sqrt n \<le> 1 / 10 + (2 / 5) / 3"
proof -
  have lo: "3 \<le> sqrt n" by (rule real_le_rsqrt) (use assms in simp)
  have hi: "sqrt n \<le> 10" by (rule real_le_lsqrt) (use assms in simp_all)
  have pos: "0 < sqrt n" using lo by linarith
  have "(2 / 5) / sqrt n \<le> (2 / 5) / 3"
    using lo pos by (intro divide_left_mono) simp_all
  moreover have "(2 / 5) / 10 \<le> (2 / 5) / sqrt n"
    using hi pos by (intro divide_left_mono) simp_all
  ultimately show ?thesis by simp
qed

lemma no_plateau_target:
  assumes "n_values \<noteq> []" "\<forall>n \<in> set n_values. 9 \<le> n \<and> n \<le> 100"
    and "f = (\<lambda>n :: real. 1 / 10 + (2 / 5) / sqrt n)"
    and "target = 1 / 10 + 1 / 20 * (Max (set (map f n_values)) - 1 / 10)"
  shows "\<not> (\<exists>n \<in> set n_values. f n \<le> target)"
proof
  have fb: "14 / 100 \<le> f n \<and> f n \<le> 1 / 10 + (2 / 5) / 3" if "n \<in> set n_values" for n
    unfolding assms(3) using that assms(2) by (intro prediction_bounds) auto
  have "Max (set (map f n_values)) \<le> 1 / 10 + (2 / 5) / 3"
    using assms(1) fb by (subst Max_le_iff) auto
  then have t: "target < 14 / 100" unfolding assms(4) by simp
  assume "\<exists>n \<in> set n_values. f n \<le> target"
  then obtain n where n: "n \<in> set n_values" "f n \<le> target" by blast
  from fb[OF n(1)] have "14 / 100 \<le> f n" by blast
  with n(2) t show False by linarith
qed

lemma no_plateau:
  assumes "n_values \<noteq> []" "\<forall>n \<in> set n_values. 9 \<le> n \<and> n \<le> 100"
  shows "estimate_n_star n_values (1 / 10) (2 / 5) (1 / 20) = Inr (py_trunc (last n_values))"
proof -
  define f where "f = (\<lambda>n :: real. 1 / 10 + (2 / 5) / sqrt n)"
  define target where "target = 1 / 10 + 1 / 20 * (Max (set (map f n_values)) - 1 / 10)"
  have no: "\<not> (\<exists>n \<in> set n_values. f n \<le> target)"
    by (rule no_plateau_target[OF assms f_def target_def])
  show ?thesis
    unfolding estimate_n_star_general[OF assms(1) f_def target_def] if_not_P[OF no] ..
qed

lemma sorted_last_Max:
  assumes "sorted (xs :: real list)" "xs \<noteq> []"
  shows "last xs = Max (set xs)"
proof (rule sym, rule Max_eqI)
  show "finite (set xs)" by simp
  show "last xs \<in> set xs" using assms(2) by simp
  show "y \<le> last xs" if "y \<in> set xs" for y
  proof -
    from that obtain i where i: "i < length xs" "xs ! i = y" by (metis in_set_conv_nth)
    have "xs ! i \<le> xs ! (length xs - 1)"
      using assms(1) i(1) by (intro sorted_nth_mono) simp_all
    with i(2) assms(2) show ?thesis by (simp add: last_conv_nth)
  qed
qed

lemma estimate_n_star_sorted:
  assumes "n_values \<noteq> []" and "sorted n_values"
    and "f = (\<lambda>n. intercept + slope / sqrt n)"
    and "target = intercept + plateau_fraction * (Max (set (map f n_values)) - intercept)"
  shows "estimate_n_star n_values intercept slope plateau_fraction =
           Inr (py_trunc
                 (if \<exists>n \<in> set n_values. f n \<le> target
                  then Min {n \<in> set n_values. f n \<le> target}
                  else Max (set n_values)))"
  unfolding estimate_n_star_general[OF assms(1,3,4)] sorted_last_Max[OF assms(2,1)] ..

lemma group_n_values_sorted: "sorted (group_n_values summary_rows)"
  unfolding group_n_values_def by (rule sorted_sort_key)

lemma group_n_values_Nil: "(group_n_values summary_rows = []) = (summary_rows = [])"
  unfolding group_n_values_def by (metis length_0_conv length_map length_sort)

text \<open>
  C5. On the sampled sizes as \<open>main\<close> passes them (the sizes of a non-empty group of
  summary rows, positive and sorted by size before the call) and for any intercept,
  slope and plateau fraction, \<open>estimate_n_star\<close> returns the smallest sampled size
  whose predicted value \<open>intercept + slope / sqrt N\<close> is at most
  \<open>intercept + plateau_fraction * (max_predicted - intercept)\<close>, and the largest
  sampled size when no sampled size reaches that target. With intercept \<open>0.10\<close>,
  slope \<open>0.40\<close> and plateau fraction \<open>0.05\<close> over the sizes \<open>10, 50, 100\<close> no size
  reaches the target and the result is \<open>100\<close>.
\<close>

theorem estimate_n_star_plateau:
  "(summary_rows \<noteq> [] \<and> (\<forall>row \<in> set summary_rows. 0 < fst row) \<and> n_values = group_n_values summary_rows \<longrightarrow>
      estimate_n_star n_values intercept slope plateau_fraction =
        (let predicted = (\<lambda>n. intercept + slope / sqrt n);
             max_predicted = Max (set (map predicted n_values));
             target = intercept + plateau_fraction * (max_predicted - intercept)
         in Inr (py_trunc
                  (if \<exists>n \<in> set n_values. predicted n \<le> target
                   then Min {n \<in> set n_values. predicted n \<le> target}
                   else Max (set n_values))))) \<and>
   estimate_n_star [10, 50, 100] (1 / 10) (2 / 5) (1 / 20) = Inr 100 \<and>
   \<not> (\<exists>n \<in> set [10, 50, 100 :: real].
          1 / 10 + (2 / 5) / sqrt n \<le>
          1 / 10 + 1 / 20 *
            (Max (set (map (\<lambda>n. 1 / 10 + (2 / 5) / sqrt n) [10, 50, 100])) - 1 / 10))"
proof (intro conjI impI)
  assume a: "summary_rows \<noteq> [] \<and> (\<forall>row \<in> set summary_rows. 0 < fst row) \<and> n_values = group_n_values summary_rows"
  then have ne: "n_values \<noteq> []" by (simp add: group_n_values_Nil)
  from a have srt: "sorted n_values" by (simp add: group_n_values_sorted)
  show "estimate_n_star n_values intercept slope plateau_fraction =
        (let predicted = (\<lambda>n. intercept + slope / sqrt n);
             max_predicted = Max (set (map predicted n_values));
             target = intercept + plateau_fraction * (max_predicted - intercept)
         in Inr (py_trunc
                  (if \<exists>n \<in> set n_values. predicted n \<le> target
                   then Min {n \<in> set n_values. predicted n \<le> target}
                   else Max (set n_values))))"
    unfolding Let_def by (rule estimate_n_star_sorted[OF ne srt refl refl])
next
  show "estimate_n_star [10, 50, 100] (1 / 10) (2 / 5) (1 / 20) = Inr 100"
    using no_plateau[of "[10, 50, 100]"] by (simp add: py_trunc_def)
next
  show "\<not> (\<exists>n \<in> set [10, 50, 100 :: real].
          1 / 10 + (2 / 5) / sqrt n \<le>
          1 / 10 + 1 / 20 *
            (Max (set (map (\<lambda>n. 1 / 10 + (2 / 5) / sqrt n) [10, 50, 100])) - 1 / 10))"
    by (rule no_plateau_target[OF _ _ refl refl]) simp_all
qed

lemma ex_group_n_values:
  "group_n_values [(100, 7 / 50), (10, 23 / 100), (50, 4 / 25)] = [10, 50, 100]"
  by (simp add: group_n_values_def)

theorem estimate_n_star_plateau_witness:
  "[(100, 7 / 50), (10, 23 / 100), (50, 4 / 25 :: real)] \<noteq> [] \<and>
   (0 :: real) < 100 \<and> (0 :: real) < 10 \<and> (0 :: real) < 50 \<and>
   [10, 50, 100] = group_n_values [(100, 7 / 50), (10, 23 / 100), (50, 4 / 25)] \<and>
   estimate_n_star [10, 50, 100] 0 (-1) (1 / 2) = Inr 10"
proof -
  let ?group = "[(100 :: real, 7 / 50 :: real), (10, 23 / 100), (50, 4 / 25)]"
  have h1: "?group \<noteq> []" by simp
  have h2: "\<forall>row \<in> set ?group. 0 < fst row" by simp
  have h3: "[10, 50, 100] = group_n_values ?group" by (rule ex_group_n_values[symmetric])
  define predicted where "predicted = (\<lambda>n :: real. 0 + (- 1) / sqrt n)"
  define M where "M = Max (set (map predicted [10, 50, 100]))"
  define target where "target = 0 + 1 / 2 * (M - 0)"
  have neg: "predicted n < 0" if "0 < n" for n
    using that by (simp add: predicted_def)
  have "M \<in> set (map predicted [10, 50, 100])"
    unfolding M_def by (intro Max_in) simp_all
  then have mneg: "M < 0"
    using neg by auto
  have mge: "predicted 10 \<le> M"
    unfolding M_def by (intro Max_ge) simp_all
  have "M \<le> M / 2" using mneg by simp
  with mge have "predicted 10 \<le> M / 2" by (rule order_trans)
  then have hit: "predicted 10 \<le> target" unfolding target_def by simp
  have ex: "\<exists>n \<in> set [10, 50, 100]. predicted n \<le> target" using hit by auto
  have mn: "Min {n \<in> set [10, 50, 100]. predicted n \<le> target} = 10"
    by (rule Min_eqI) (use hit in auto)
  from estimate_n_star_plateau[of ?group "[10, 50, 100]" 0 "- 1" "1 / 2", THEN conjunct1,
      rule_format, OF conjI[OF h1 conjI[OF h2 h3]]]
  have "estimate_n_star [10, 50, 100] 0 (- 1) (1 / 2) =
          Inr (py_trunc
                (if \<exists>n \<in> set [10, 50, 100]. predicted n \<le> target
                 then Min {n \<in> set [10, 50, 100]. predicted n \<le> target}
                 else Max (set [10, 50, 100])))"
    unfolding Let_def predicted_def target_def M_def .
  then have "estimate_n_star [10, 50, 100] 0 (- 1) (1 / 2) = Inr 10"
    unfolding if_P[OF ex] mn by (simp add: py_trunc_def)
  with h1 h3 show ?thesis by simp
qed

text \<open>
  On an array that is not ascending the fall-back reads the last entry, which need not
  be the largest; \<open>main\<close> never passes such an array.
\<close>

lemma estimate_n_star_unsorted:
  "estimate_n_star [100, 10, 50] (1 / 10) (2 / 5) (1 / 20) = Inr 50"
  using no_plateau[of "[100, 10, 50]"] by (simp add: py_trunc_def)

end
